theory Spec2Isabelle
  imports Main "HOL-Library.Sublist"
begin

section \<open>The gensnippets tool of google-cloud-go\<close>

text \<open>
  The package \<^verbatim>\<open>gensnippets\<close> reads the GoDoc examples of every module below a root
  directory and writes each example as a stand-alone, region-tagged program. This theory
  embeds its three functions \<^verbatim>\<open>Generate\<close>, \<^verbatim>\<open>processExamples\<close> and \<^verbatim>\<open>writeExamples\<close>
  together with the parts of the Go standard library they call.
\<close>

subsection \<open>Go strings\<close>

text \<open>
  A Go \<^verbatim>\<open>string\<close> is a sequence of bytes; \<open>length\<close> is Go's \<^verbatim>\<open>len\<close>.
  The functions below follow the package \<^verbatim>\<open>strings\<close>.
\<close>

definition strings_HasPrefix :: "string \<Rightarrow> string \<Rightarrow> bool" where
  "strings_HasPrefix s pre = (length pre \<le> length s \<and> take (length pre) s = pre)"

definition strings_HasSuffix :: "string \<Rightarrow> string \<Rightarrow> bool" where
  "strings_HasSuffix s suf = (length suf \<le> length s \<and> drop (length s - length suf) s = suf)"

definition strings_TrimPrefix :: "string \<Rightarrow> string \<Rightarrow> string" where
  "strings_TrimPrefix s pre = (if strings_HasPrefix s pre then drop (length pre) s else s)"

text \<open>
  \<^verbatim>\<open>strings.ReplaceAll(s, old, new)\<close> for a non-empty \<^verbatim>\<open>old\<close>: the non-overlapping
  occurrences of \<^verbatim>\<open>old\<close> are replaced from left to right. (The tool calls it with
  \<^verbatim>\<open>old = "/"\<close> only; for an empty \<^verbatim>\<open>old\<close> Go inserts \<^verbatim>\<open>new\<close> between the
  characters, which this definition does not model.)
\<close>

function strings_ReplaceAll :: "string \<Rightarrow> string \<Rightarrow> string \<Rightarrow> string" where
  "strings_ReplaceAll [] old new = []"
| "strings_ReplaceAll (c # cs) old new =
     (if old \<noteq> [] \<and> strings_HasPrefix (c # cs) old
      then new @ strings_ReplaceAll (drop (length old) (c # cs)) old new
      else c # strings_ReplaceAll cs old new)"
  by pat_completeness auto
termination
  by (relation "measure (\<lambda>(s, old, new). length s)") auto

text \<open>
  \<^verbatim>\<open>strings.Split(s, sep)\<close> for a separator of one byte: the pieces between the
  separators, one more than there are separators.
\<close>

fun strings_Split :: "string \<Rightarrow> char \<Rightarrow> string list" where
  "strings_Split [] sep = [[]]"
| "strings_Split (c # cs) sep =
     (if c = sep then [] # strings_Split cs sep
      else (case strings_Split cs sep of
              [] \<Rightarrow> [[c]]
            | piece # pieces \<Rightarrow> (c # piece) # pieces))"

fun strings_Join :: "string list \<Rightarrow> string \<Rightarrow> string" where
  "strings_Join [] sep = []"
| "strings_Join [e] sep = e"
| "strings_Join (e # es) sep = e @ sep @ strings_Join es sep"

subsection \<open>Go file paths (Unix)\<close>

text \<open>
  \<^verbatim>\<open>filepath.Clean\<close> after its documentation: runs of separators count once, every
  \<^verbatim>\<open>.\<close> element is dropped, an inner \<^verbatim>\<open>..\<close> element is dropped together with the
  element before it, a \<^verbatim>\<open>..\<close> at the start of a rooted path is dropped, and the empty
  result is \<^verbatim>\<open>.\<close>. The elements kept so far are a stack whose top is the last one.
\<close>

definition clean_step :: "bool \<Rightarrow> string list \<Rightarrow> string \<Rightarrow> string list" where
  "clean_step rooted stk el =
     (if el = [] \<or> el = ''.'' then stk
      else if el = ''..'' then
        (if stk \<noteq> [] \<and> last stk \<noteq> ''..'' then butlast stk
         else if \<not> rooted then stk @ [''..'']
         else stk)
      else stk @ [el])"

definition clean_stack :: "bool \<Rightarrow> string \<Rightarrow> string list" where
  "clean_stack rooted path = foldl (clean_step rooted) [] (strings_Split path (CHR ''/''))"

definition render_path :: "bool \<Rightarrow> string list \<Rightarrow> string" where
  "render_path rooted stk =
     (let out = (if rooted then ''/'' else []) @ strings_Join stk ''/''
      in if out = [] then ''.'' else out)"

definition filepath_Clean :: "string \<Rightarrow> string" where
  "filepath_Clean path =
     (if path = [] then ''.''
      else
        let rooted = (hd path = CHR ''/'')
        in render_path rooted (clean_stack rooted path))"

text \<open>
  \<^verbatim>\<open>filepath.Join\<close>: empty elements in front are ignored, the rest is joined with
  the separator and cleaned; when every element is empty the result is empty.
\<close>

definition filepath_Join :: "string list \<Rightarrow> string" where
  "filepath_Join elems =
     (case dropWhile (\<lambda>e. e = []) elems of
        [] \<Rightarrow> []
      | es \<Rightarrow> filepath_Clean (strings_Join es ''/''))"

text \<open>
  \<^verbatim>\<open>filepath.Dir\<close>: the path up to and including its last separator, cleaned.
\<close>

definition filepath_Dir :: "string \<Rightarrow> string" where
  "filepath_Dir path = filepath_Clean (rev (dropWhile (\<lambda>c. c \<noteq> CHR ''/'') (rev path)))"

subsection \<open>Resolving the shortname\<close>

text \<open>
  The map \<^verbatim>\<open>apiShortnames\<close> is a partial function; the list \<open>keys\<close> is the order in
  which one run of \<^verbatim>\<open>for path := range apiShortnames\<close> visits its keys, which Go leaves
  unspecified. The loop body is \<open>bestMatch_step\<close>.
\<close>

definition bestMatch_step :: "string \<Rightarrow> string \<Rightarrow> string \<Rightarrow> string" where
  "bestMatch_step importPath bestMatch path =
     (if strings_HasPrefix importPath path
      then (if length path > length bestMatch then path else bestMatch)
      else bestMatch)"

definition bestMatch_loop :: "string \<Rightarrow> string list \<Rightarrow> string" where
  "bestMatch_loop importPath keys = foldl (bestMatch_step importPath) [] keys"

type_synonym error = string

definition find_shortname ::
  "(string \<rightharpoonup> string) \<Rightarrow> string list \<Rightarrow> string \<Rightarrow> error + string" where
  "find_shortname apiShortnames keys importPath =
     (case apiShortnames importPath of
        Some shortname \<Rightarrow> Inr shortname
      | None \<Rightarrow>
          (let bestMatch = bestMatch_loop importPath keys
           in if bestMatch = []
              then Inl (''could not find API shortname for '' @ importPath)
              else (case apiShortnames bestMatch of
                      Some shortname \<Rightarrow> Inr shortname
                    | None \<Rightarrow> Inr [])))"

subsection \<open>The data handed to the tool\<close>

text \<open>
  The documentation tree of a package (\<^verbatim>\<open>doc.Package\<close>) with the fields the tool
  reads. The type \<open>'a\<close> stands for the syntax trees of \<^verbatim>\<open>go/ast\<close>, which the tool
  only hands to the printer.
\<close>

record 'a Example =
  ex_Name :: string
  ex_Suffix :: string
  ex_Code :: 'a
  ex_Comments :: "'a list"
  ex_Play :: "'a option"

record 'a Func =
  fn_Name :: string
  fn_Examples :: "'a Example list"

record 'a Type =
  ty_Name :: string
  ty_Examples :: "'a Example list"
  ty_Funcs :: "'a Func list"
  ty_Methods :: "'a Func list"

record 'a Package =
  pkg_ImportPath :: string
  pkg_Funcs :: "'a Func list"
  pkg_Types :: "'a Type list"

text \<open>What \<^verbatim>\<open>format.Node\<close> is asked to print.\<close>

datatype 'a printer_node = CommentedNode 'a "'a list" | PlayFile 'a

subsection \<open>The world outside the program\<close>

text \<open>
  The state threaded through the program: the contents of the files it has opened, the
  directories it has asked for, and the trace of its calls to the outside in the order
  they were made. The trace also records every call of the walk's callback
  (\<open>EvWalk\<close>) and, in \<^verbatim>\<open>Generate\<close>, every call of \<^verbatim>\<open>processExamples\<close> with the
  import path and what the call returned (\<open>EvProcess\<close>).
\<close>

datatype event =
    EvWalk string
  | EvLoad string
  | EvProcess string "error option"
  | EvMkdirAll string
  | EvOpenFile string
  | EvWrite string string
  | EvNow
  | EvGoimports string

record world =
  files :: "string \<rightharpoonup> string"
  directories :: "string set"
  trace :: "event list"

text \<open>
  A directory tree as \<^verbatim>\<open>os.Lstat\<close> and \<^verbatim>\<open>os.ReadDir\<close> report it: an entry that is
  not a directory, a directory with its entries in the order \<^verbatim>\<open>ReadDir\<close> lists them,
  and a directory that \<^verbatim>\<open>ReadDir\<close> fails to read.
\<close>

datatype node = File string | Dir string "node list" | Unreadable string

fun node_Name :: "node \<Rightarrow> string" where
  "node_Name (File name) = name"
| "node_Name (Dir name entries) = name"
| "node_Name (Unreadable name) = name"

fun node_IsDir :: "node \<Rightarrow> bool" where
  "node_IsDir (File name) = False"
| "node_IsDir (Dir name entries) = True"
| "node_IsDir (Unreadable name) = True"

text \<open>
  The answers of the outside are parameters. Each may depend on the whole state, so on
  everything that happened before: whether a call fails and with which error, what the
  year the clock shows, in which order a \<^verbatim>\<open>range\<close> over the shortname map visits
  its keys, which tree \<^verbatim>\<open>os.Lstat\<close> finds at the root of the walk (\<open>None\<close> when it
  fails) and what \<^verbatim>\<open>goimports\<close> makes of the files. What the printer renders and what
  \<^verbatim>\<open>pkgload.Load\<close> finds in a source directory do not depend on the state. The type
  \<open>'f\<close> stands for \<^verbatim>\<open>token.FileSet\<close>.
\<close>

record ('a, 'f) env =
  format_Node :: "'f \<Rightarrow> 'a printer_node \<Rightarrow> error + string"
  os_MkdirAll :: "world \<Rightarrow> string \<Rightarrow> error option"
  os_OpenFile :: "world \<Rightarrow> string \<Rightarrow> error option"
  file_Write :: "world \<Rightarrow> string \<Rightarrow> string \<Rightarrow> (nat \<times> error) option"
  time_Now_Year :: "world \<Rightarrow> int"
  range_keys :: "world \<Rightarrow> string \<Rightarrow> string list"
  os_Lstat :: "world \<Rightarrow> string \<Rightarrow> node option"
  pkgload_Load :: "string \<Rightarrow> error + ('a Package \<times> 'f) list"
  goimports_Run :: "world \<Rightarrow> string \<Rightarrow> error option \<times> (string \<rightharpoonup> string)"

definition log_event :: "event \<Rightarrow> world \<Rightarrow> world" where
  "log_event ev w = w\<lparr>trace := trace w @ [ev]\<rparr>"

text \<open>
  \<^verbatim>\<open>os.MkdirAll(dir, 0755)\<close>: on success the directory exists (its parents are not
  recorded separately).
\<close>

definition MkdirAll :: "('a, 'f) env \<Rightarrow> string \<Rightarrow> world \<Rightarrow> error option \<times> world" where
  "MkdirAll env dir w =
     (case os_MkdirAll env w dir of
        Some e \<Rightarrow> (Some e, log_event (EvMkdirAll dir) w)
      | None \<Rightarrow> (None, log_event (EvMkdirAll dir) (w\<lparr>directories := insert dir (directories w)\<rparr>)))"

text \<open>
  \<^verbatim>\<open>os.OpenFile(filename, O_WRONLY|O_CREATE|O_TRUNC, 0644)\<close>: on success the file exists
  and is empty.
\<close>

definition OpenFile :: "('a, 'f) env \<Rightarrow> string \<Rightarrow> world \<Rightarrow> error option \<times> world" where
  "OpenFile env filename w =
     (case os_OpenFile env w filename of
        Some e \<Rightarrow> (Some e, log_event (EvOpenFile filename) w)
      | None \<Rightarrow> (None, log_event (EvOpenFile filename) (w\<lparr>files := (files w)(filename \<mapsto> [])\<rparr>)))"

text \<open>
  One write to the open file (\<^verbatim>\<open>f.WriteString\<close>, and the single write of
  \<^verbatim>\<open>fmt.Fprintf\<close>): the data is appended; a failed write may have appended the first
  \<open>n\<close> bytes of it.
\<close>

definition content :: "world \<Rightarrow> string \<Rightarrow> string" where
  "content w filename = (case files w filename of Some c \<Rightarrow> c | None \<Rightarrow> [])"

definition WriteString :: "('a, 'f) env \<Rightarrow> string \<Rightarrow> string \<Rightarrow> world \<Rightarrow> error option \<times> world" where
  "WriteString env filename data w =
     (case file_Write env w filename data of
        Some (n, e) \<Rightarrow>
          (Some e, log_event (EvWrite filename (take n data))
                     (w\<lparr>files := (files w)(filename \<mapsto> content w filename @ take n data)\<rparr>))
      | None \<Rightarrow>
          (None, log_event (EvWrite filename data)
                   (w\<lparr>files := (files w)(filename \<mapsto> content w filename @ data)\<rparr>)))"

text \<open>\<^verbatim>\<open>if err != nil { return err }\<close> between two steps.\<close>

definition and_then ::
  "error option \<times> world \<Rightarrow> (world \<Rightarrow> error option \<times> world) \<Rightarrow> error option \<times> world" where
  "and_then r k = (case r of (None, w) \<Rightarrow> k w | (Some e, w) \<Rightarrow> (Some e, w))"

subsection \<open>The license header\<close>

text \<open>\<^verbatim>\<open>%v\<close> of an \<^verbatim>\<open>int\<close>: its decimal digits, with a minus sign when negative.\<close>

fun decimal :: "nat \<Rightarrow> string" where
  "decimal n = (if n < 10 then [char_of (48 + n)] else decimal (n div 10) @ [char_of (48 + n mod 10)])"

declare decimal.simps [simp del]

definition fmt_int :: "int \<Rightarrow> string" where
  "fmt_int i = (if i < 0 then ''-'' @ decimal (nat (- i)) else decimal (nat i))"

definition licenseHeader :: "int \<Rightarrow> string" where
  \<open>licenseHeader year =
     ''// Copyright '' @ fmt_int year @ '' Google LLC\<newline>'' @
     ''//\<newline>'' @
     ''// Licensed under the Apache License, Version 2.0 (the "License");\<newline>'' @
     ''// you may not use this file except in compliance with the License.\<newline>'' @
     ''// You may obtain a copy of the License at\<newline>'' @
     ''//\<newline>'' @
     ''//      http://www.apache.org/licenses/LICENSE-2.0\<newline>'' @
     ''//\<newline>'' @
     ''// Unless required by applicable law or agreed to in writing, software\<newline>'' @
     ''// distributed under the License is distributed on an "AS IS" BASIS,\<newline>'' @
     ''// WITHOUT WARRANTIES OR CONDITIONS OF ANY KIND, either express or implied.\<newline>'' @
     ''// See the License for the specific language governing permissions and\<newline>'' @
     ''// limitations under the License.\<newline>'' @
     ''\<newline>''\<close>

text \<open>\<^verbatim>\<open>header()\<close> reads the clock each time it is called.\<close>

definition header :: "('a, 'f) env \<Rightarrow> world \<Rightarrow> string \<times> world" where
  "header env w = (licenseHeader (time_Now_Year env w), log_event EvNow w)"

subsection \<open>writeExamples\<close>

text \<open>
  Lines 188 to 197: a rendering that is a braced block loses its first and last line and
  one leading tab of every line between. \<open>builder\<close> is the \<^verbatim>\<open>strings.Builder\<close>;
  the slice \<^verbatim>\<open>lines[1 : len(lines)-1]\<close> is in range whenever the test holds
  (lemma \<open>reformat_slice_in_range\<close>).
\<close>

definition reformat :: "string \<Rightarrow> string" where
  "reformat s =
     (if strings_HasPrefix s ''{\<newline>'' \<and> strings_HasSuffix s ''\<newline>}''
      then
        let lines = strings_Split s (CHR ''\<newline>'')
        in foldl (\<lambda>builder line. builder @ strings_TrimPrefix line [CHR 0x09] @ ''\<newline>'')
             [] (take (length lines - 1 - 1) (drop 1 lines))
      else s)"

text \<open>
  One round of the loop of \<^verbatim>\<open>writeExamples\<close> (lines 170 to 220); \<open>n\<close> is
  \<^verbatim>\<open>len(exs)\<close>. The deferred \<^verbatim>\<open>f.Close()\<close> runs when \<^verbatim>\<open>writeExamples\<close>
  returns, its result is dropped and it changes no content.
\<close>

definition example_dir :: "string \<Rightarrow> nat \<Rightarrow> 'a Example \<Rightarrow> string" where
  "example_dir outDir n ex = (if n > 1 then filepath_Join [outDir, ex_Suffix ex] else outDir)"

definition example_filename :: "string \<Rightarrow> nat \<Rightarrow> 'a Example \<Rightarrow> string" where
  "example_filename outDir n ex = filepath_Join [example_dir outDir n ex, ''main.go'']"

definition example_node :: "'a Example \<Rightarrow> 'a printer_node" where
  "example_node ex =
     (case ex_Play ex of
        Some play \<Rightarrow> PlayFile play
      | None \<Rightarrow> CommentedNode (ex_Code ex) (ex_Comments ex))"

definition writeExample ::
  "('a, 'f) env \<Rightarrow> string \<Rightarrow> nat \<Rightarrow> 'f \<Rightarrow> string \<Rightarrow> 'a Example \<Rightarrow> world \<Rightarrow> error option \<times> world" where
  "writeExample env outDir n fset regionTag ex w =
     (let dir = example_dir outDir n ex;
          filename = example_filename outDir n ex
      in case format_Node env fset (example_node ex) of
           Inl err \<Rightarrow> (Some err, w)
         | Inr buf \<Rightarrow>
             (let s = reformat buf
              in and_then (MkdirAll env dir w) (\<lambda>w.
                 and_then (OpenFile env filename w) (\<lambda>w.
                 case header env w of (h, w) \<Rightarrow>
                 and_then (WriteString env filename h w) (\<lambda>w.
                 let tag = regionTag @ ''_'' @ ex_Name ex
                 in and_then (WriteString env filename (''// [START '' @ tag @ '']\<newline>\<newline>'') w) (\<lambda>w.
                    and_then (WriteString env filename s w) (\<lambda>w.
                    WriteString env filename (''// [END '' @ tag @ '']\<newline>'') w)))))))"

fun writeExamples_loop ::
  "('a, 'f) env \<Rightarrow> string \<Rightarrow> nat \<Rightarrow> 'f \<Rightarrow> string \<Rightarrow> 'a Example list \<Rightarrow> world \<Rightarrow> error option \<times> world" where
  "writeExamples_loop env outDir n fset regionTag [] w = (None, w)"
| "writeExamples_loop env outDir n fset regionTag (ex # rest) w =
     and_then (writeExample env outDir n fset regionTag ex w)
       (writeExamples_loop env outDir n fset regionTag rest)"

definition writeExamples ::
  "('a, 'f) env \<Rightarrow> string \<Rightarrow> 'a Example list \<Rightarrow> 'f \<Rightarrow> string \<Rightarrow> world \<Rightarrow> error option \<times> world" where
  "writeExamples env outDir exs fset regionTag w =
     (if length exs = 0 then (None, w)
      else writeExamples_loop env outDir (length exs) fset regionTag exs w)"

subsection \<open>processExamples\<close>

definition skip :: "string \<Rightarrow> bool" where
  "skip importPath = (importPath \<in> set
     [''cloud.google.com/go'',
      ''cloud.google.com/go/civil'',
      ''cloud.google.com/go/cloudbuild/apiv1'',
      ''cloud.google.com/go/cmd/go-cloud-debug-agent'',
      ''cloud.google.com/go/container'',
      ''cloud.google.com/go/containeranalysis/apiv1'',
      ''cloud.google.com/go/grafeas/apiv1'',
      ''cloud.google.com/go/httpreplay'',
      ''cloud.google.com/go/httpreplay/cmd/httpr'',
      ''cloud.google.com/go/longrunning'',
      ''cloud.google.com/go/monitoring/apiv3'',
      ''cloud.google.com/go/translate''])"

text \<open>The loops over \<^verbatim>\<open>pkg.Funcs\<close>, \<^verbatim>\<open>t.Funcs\<close> and \<^verbatim>\<open>t.Methods\<close>.\<close>

fun funcs_loop ::
  "('a, 'f) env \<Rightarrow> string \<Rightarrow> 'f \<Rightarrow> string \<Rightarrow> 'a Func list \<Rightarrow> world \<Rightarrow> error option \<times> world" where
  "funcs_loop env outDir fset regionTag [] w = (None, w)"
| "funcs_loop env outDir fset regionTag (f # rest) w =
     and_then (writeExamples env (filepath_Join [outDir, fn_Name f]) (fn_Examples f) fset regionTag w)
       (funcs_loop env outDir fset regionTag rest)"

text \<open>The loop over \<^verbatim>\<open>pkg.Types\<close>.\<close>

fun types_loop ::
  "('a, 'f) env \<Rightarrow> string \<Rightarrow> 'f \<Rightarrow> string \<Rightarrow> 'a Type list \<Rightarrow> world \<Rightarrow> error option \<times> world" where
  "types_loop env outDir fset regionTag [] w = (None, w)"
| "types_loop env outDir fset regionTag (t # rest) w =
     (let dir = filepath_Join [outDir, ty_Name t]
      in and_then (writeExamples env dir (ty_Examples t) fset regionTag w) (\<lambda>w.
         and_then (funcs_loop env dir fset regionTag (ty_Funcs t) w) (\<lambda>w.
         and_then (funcs_loop env dir fset regionTag (ty_Methods t) w)
           (types_loop env outDir fset regionTag rest))))"

text \<open>Line 132: the region tag of a package.\<close>

definition region_tag :: "string \<Rightarrow> string \<Rightarrow> string" where
  "region_tag shortname trimmed = shortname @ ''_generated'' @ strings_ReplaceAll trimmed ''/'' ''_''"

text \<open>
  \<^verbatim>\<open>processExamples\<close>; \<open>keys\<close> is the order in which this call's \<^verbatim>\<open>range\<close> visits
  the keys of \<^verbatim>\<open>apiShortnames\<close>. The two \<^verbatim>\<open>log.Printf\<close> lines go to standard error
  and are left out.
\<close>

definition processExamples ::
  "('a, 'f) env \<Rightarrow> string list \<Rightarrow> 'a Package \<Rightarrow> 'f \<Rightarrow> string \<Rightarrow> string \<Rightarrow> (string \<rightharpoonup> string)
     \<Rightarrow> world \<Rightarrow> error option \<times> world" where
  "processExamples env keys pkg fset trimPrefix outDir apiShortnames w =
     (if skip (pkg_ImportPath pkg) then (None, w)
      else
        let trimmed = strings_TrimPrefix (pkg_ImportPath pkg) trimPrefix;
            outDir = filepath_Join [outDir, trimmed]
        in case find_shortname apiShortnames keys (pkg_ImportPath pkg) of
             Inl err \<Rightarrow> (Some err, w)
           | Inr shortname \<Rightarrow>
               (let regionTag = region_tag shortname trimmed
                in and_then (funcs_loop env outDir fset regionTag (pkg_Funcs pkg) w)
                     (types_loop env outDir fset regionTag (pkg_Types pkg))))"

subsection \<open>Generate\<close>

text \<open>
  What the callback of the walk and \<^verbatim>\<open>walkDir\<close> return: \<^verbatim>\<open>nil\<close>,
  \<^verbatim>\<open>filepath.SkipDir\<close>, or another error.
\<close>

datatype walk_result = WalkNil | WalkSkipDir | WalkErr

text \<open>
  The function literal of lines 47 to 58. It is called with the path, the entry's name
  and whether an error is reported; \<open>found\<close> is the slice \<^verbatim>\<open>dirs\<close> it appends to.
\<close>

definition walk_fn ::
  "string \<Rightarrow> string \<Rightarrow> bool \<Rightarrow> string list \<times> world \<Rightarrow> walk_result \<times> string list \<times> world" where
  "walk_fn path name err st =
     (case st of (found, w) \<Rightarrow>
        (let w = log_event (EvWalk path) w
         in if err then (WalkErr, found, w)
            else if name = ''internal'' then (WalkSkipDir, found, w)
            else if name = ''go.mod'' then (WalkNil, found @ [filepath_Dir path], w)
            else (WalkNil, found, w)))"

text \<open>
  \<^verbatim>\<open>filepath.WalkDir\<close> and its helper \<^verbatim>\<open>walkDir\<close> of the Go library, with
  the callback above: the callback sees an entry first; a directory it did not skip is
  read and its entries are walked in order; \<^verbatim>\<open>SkipDir\<close> from a directory skips that
  directory, from another entry the rest of the directory it is in; any other error ends
  the walk.
\<close>

fun walkDir :: "string \<Rightarrow> node \<Rightarrow> string list \<times> world \<Rightarrow> walk_result \<times> string list \<times> world"
and walkDir_entries :: "string \<Rightarrow> node list \<Rightarrow> string list \<times> world \<Rightarrow> walk_result \<times> string list \<times> world" where
  "walkDir path (File name) st = walk_fn path name False st"
| "walkDir path (Dir name entries) st =
     (case walk_fn path name False st of
        (WalkNil, st) \<Rightarrow> walkDir_entries path entries st
      | (WalkSkipDir, st) \<Rightarrow> (WalkNil, st)
      | (WalkErr, st) \<Rightarrow> (WalkErr, st))"
| "walkDir path (Unreadable name) st =
     (case walk_fn path name False st of
        (WalkNil, st) \<Rightarrow>
          (case walk_fn path name True st of
             (WalkNil, st) \<Rightarrow> (WalkNil, st)
           | (WalkSkipDir, st) \<Rightarrow> (WalkNil, st)
           | (WalkErr, st) \<Rightarrow> (WalkErr, st))
      | (WalkSkipDir, st) \<Rightarrow> (WalkNil, st)
      | (WalkErr, st) \<Rightarrow> (WalkErr, st))"
| "walkDir_entries path [] st = (WalkNil, st)"
| "walkDir_entries path (d1 # rest) st =
     (case walkDir (filepath_Join [path, node_Name d1]) d1 st of
        (WalkNil, st) \<Rightarrow> walkDir_entries path rest st
      | (WalkSkipDir, st) \<Rightarrow> (WalkNil, st)
      | (WalkErr, st) \<Rightarrow> (WalkErr, st))"

definition WalkDir :: "node option \<Rightarrow> string \<Rightarrow> string list \<times> world \<Rightarrow> walk_result \<times> string list \<times> world" where
  "WalkDir lstat root st =
     (case (case lstat of
              None \<Rightarrow> walk_fn root [] True st
            | Some info \<Rightarrow> walkDir root info st) of
        (WalkSkipDir, st) \<Rightarrow> (WalkNil, st)
      | r \<Rightarrow> r)"

text \<open>
  How \<^verbatim>\<open>Generate\<close> ends: it returns, or \<^verbatim>\<open>log.Fatal(errs)\<close> prints the collected
  errors and exits the process.
\<close>

datatype outcome = Returned "error option" | Fatal "error list"

text \<open>The loop over the packages of one directory (lines 70 to 74).\<close>

fun pkgs_loop ::
  "('a, 'f) env \<Rightarrow> string \<Rightarrow> string \<Rightarrow> (string \<rightharpoonup> string) \<Rightarrow> ('a Package \<times> 'f) list
     \<Rightarrow> error list \<Rightarrow> world \<Rightarrow> error list \<times> world" where
  "pkgs_loop env trimPrefix outDir apiShortnames [] errs w = (errs, w)"
| "pkgs_loop env trimPrefix outDir apiShortnames (pinfo # rest) errs w =
     (case pinfo of (doc, fset) \<Rightarrow>
        (case processExamples env (range_keys env w (pkg_ImportPath doc)) doc fset
                trimPrefix outDir apiShortnames w of
           (Some err, w) \<Rightarrow>
             pkgs_loop env trimPrefix outDir apiShortnames rest
               (errs @ [''failed to process examples: '' @ err])
               (log_event (EvProcess (pkg_ImportPath doc) (Some err)) w)
         | (None, w) \<Rightarrow>
             pkgs_loop env trimPrefix outDir apiShortnames rest errs
               (log_event (EvProcess (pkg_ImportPath doc) None) w)))"

text \<open>The loop over the directories (lines 64 to 75); \<open>Inl\<close> is the early return.\<close>

fun dirs_loop ::
  "('a, 'f) env \<Rightarrow> string \<Rightarrow> string \<Rightarrow> (string \<rightharpoonup> string) \<Rightarrow> string list
     \<Rightarrow> error list \<Rightarrow> world \<Rightarrow> (error + error list) \<times> world" where
  "dirs_loop env trimPrefix outDir apiShortnames [] errs w = (Inr errs, w)"
| "dirs_loop env trimPrefix outDir apiShortnames (dir # rest) errs w =
     (case pkgload_Load env dir of
        Inl err \<Rightarrow> (Inl (''failed to load packages: '' @ err), log_event (EvLoad dir) w)
      | Inr pis \<Rightarrow>
          (case pkgs_loop env trimPrefix outDir apiShortnames pis errs (log_event (EvLoad dir) w) of
             (errs, w) \<Rightarrow> dirs_loop env trimPrefix outDir apiShortnames rest errs w))"

text \<open>
  \<^verbatim>\<open>Generate\<close>. The result of \<^verbatim>\<open>filepath.WalkDir\<close> is dropped, as in the source;
  \<^verbatim>\<open>goimports -w .\<close> runs in \<^verbatim>\<open>outDir\<close> and may rewrite the files.
\<close>

definition Generate ::
  "('a, 'f) env \<Rightarrow> string \<Rightarrow> string \<Rightarrow> (string \<rightharpoonup> string) \<Rightarrow> world \<Rightarrow> outcome \<times> world" where
  "Generate env rootDir outDir apiShortnames w =
     (let rootDir = (if rootDir = [] then ''.'' else rootDir);
          outDir = (if outDir = [] then ''internal/generated/snippets'' else outDir)
      in case WalkDir (os_Lstat env w rootDir) rootDir ([], w) of
           (walked, dirs, w) \<Rightarrow>
             (let trimPrefix = ''cloud.google.com/go''
              in case dirs_loop env trimPrefix outDir apiShortnames dirs [] w of
                   (Inl err, w) \<Rightarrow> (Returned (Some err), w)
                 | (Inr errs, w) \<Rightarrow>
                     if length errs > 0 then (Fatal errs, w)
                     else if length dirs > 0 then
                       (case goimports_Run env w outDir of
                          (Some err, files') \<Rightarrow>
                            (Returned (Some (''failed to run goimports: '' @ err)),
                             log_event (EvGoimports outDir) (w\<lparr>files := files'\<rparr>))
                        | (None, files') \<Rightarrow>
                            (Returned None, log_event (EvGoimports outDir) (w\<lparr>files := files'\<rparr>)))
                     else (Returned None, w)))"

subsection \<open>Notions used to state the properties\<close>

text \<open>
  The content of a snippet file in the words of the specification: the license header,
  the \<^verbatim>\<open>[START tag]\<close> line and a blank line, the source, the \<^verbatim>\<open>[END tag]\<close> line.
\<close>

definition snippet :: "string \<Rightarrow> string \<Rightarrow> string \<Rightarrow> string" where
  "snippet hdr tag source =
     hdr @ ''// [START '' @ tag @ '']\<newline>'' @ ''\<newline>'' @ source @ ''// [END '' @ tag @ '']\<newline>''"

text \<open>The calls to the outside made between two states.\<close>

definition new_events :: "world \<Rightarrow> world \<Rightarrow> event list" where
  "new_events w w' = drop (length (trace w)) (trace w')"

subsection \<open>A small run\<close>

text \<open>
  An outside in which nothing fails, the printer renders a syntax tree as the text it
  stands for, and the clock shows 2021; an empty state; and one example.
\<close>

definition demo_env :: "(string, unit) env" where
  "demo_env =
     \<lparr>format_Node = (\<lambda>fset node. case node of CommentedNode src comments \<Rightarrow> Inr src | PlayFile src \<Rightarrow> Inr src),
      os_MkdirAll = (\<lambda>w dir. None),
      os_OpenFile = (\<lambda>w filename. None),
      file_Write = (\<lambda>w filename data. None),
      time_Now_Year = (\<lambda>w. 2021),
      range_keys = (\<lambda>w importPath. [''cloud.google.com/go/kms'']),
      os_Lstat = (\<lambda>w root. Some (Dir ''.'' [Dir ''kms'' [File ''go.mod'']])),
      pkgload_Load = (\<lambda>dir. Inr []),
      goimports_Run = (\<lambda>w dir. (None, files w))\<rparr>"

definition demo_world :: world where
  "demo_world = \<lparr>files = Map.empty, directories = {}, trace = []\<rparr>"

definition demo_example :: "string Example" where
  "demo_example =
     \<lparr>ex_Name = ''Client_Get'', ex_Suffix = [], 
      ex_Code = ''{\<newline>'' @ [CHR 0x09] @ ''x := 1\<newline>}'', ex_Comments = [], ex_Play = None\<rparr>"

text \<open>The files opened by a sequence of calls, in order.\<close>

fun opened_files :: "event list \<Rightarrow> string list" where
  "opened_files [] = []"
| "opened_files (EvOpenFile filename # evs) = filename # opened_files evs"
| "opened_files (ev # evs) = opened_files evs"

text \<open>
  The symbols of a package that can carry examples, in the order in which
  \<^verbatim>\<open>processExamples\<close> visits them, each with its directory below \<open>outDir\<close>: the
  functions; then every type, followed by its constructors and its methods.
\<close>

definition func_symbols :: "string \<Rightarrow> 'a Func list \<Rightarrow> (string \<times> 'a Example list) list" where
  "func_symbols dir fs = map (\<lambda>f. (filepath_Join [dir, fn_Name f], fn_Examples f)) fs"

definition type_symbols :: "string \<Rightarrow> 'a Type \<Rightarrow> (string \<times> 'a Example list) list" where
  "type_symbols outDir t =
     (filepath_Join [outDir, ty_Name t], ty_Examples t)
       # func_symbols (filepath_Join [outDir, ty_Name t]) (ty_Funcs t)
       @ func_symbols (filepath_Join [outDir, ty_Name t]) (ty_Methods t)"

definition symbols :: "string \<Rightarrow> 'a Package \<Rightarrow> (string \<times> 'a Example list) list" where
  "symbols outDir pkg =
     func_symbols outDir (pkg_Funcs pkg) @ concat (map (type_symbols outDir) (pkg_Types pkg))"

text \<open>
  The file of an example in the words of the specification: \<^verbatim>\<open>main.go\<close> in the
  directory of the symbol when the symbol has one example, and in the subdirectory named
  by the example's suffix when it has more.
\<close>

definition symbol_files :: "string \<times> 'a Example list \<Rightarrow> string list" where
  "symbol_files symbol =
     (case symbol of (symbolDir, exs) \<Rightarrow>
        if length exs = 1 then [filepath_Join [symbolDir, ''main.go'']]
        else map (\<lambda>ex. filepath_Join [filepath_Join [symbolDir, ex_Suffix ex], ''main.go'']) exs)"

text \<open>
  A job is one round of the loop of \<^verbatim>\<open>writeExamples\<close>: the directory of the symbol,
  the number of its examples, and the example.
\<close>

type_synonym 'a job = "string \<times> nat \<times> 'a Example"

definition job_file :: "'a job \<Rightarrow> string" where
  "job_file j = (case j of (symbolDir, n, ex) \<Rightarrow> example_filename symbolDir n ex)"

definition job_example :: "'a job \<Rightarrow> 'a Example" where
  "job_example j = (case j of (symbolDir, n, ex) \<Rightarrow> ex)"

definition symbol_jobs :: "string \<times> 'a Example list \<Rightarrow> 'a job list" where
  "symbol_jobs symbol = (case symbol of (symbolDir, exs) \<Rightarrow> map (\<lambda>ex. (symbolDir, length exs, ex)) exs)"

text \<open>
  What a list of jobs done without error leaves behind: the trace has grown; the files
  opened are those of the jobs in order; for every job the printer rendered its example,
  and the \<^verbatim>\<open>[START]\<close> line, the reformatted rendering and the \<^verbatim>\<open>[END]\<close> line were
  written to its file; a file of a job holds the snippet of a job with that file; and
  every other file is untouched.
\<close>

definition job_written ::
  "('a, 'f) env \<Rightarrow> 'f \<Rightarrow> string \<Rightarrow> event list \<Rightarrow> 'a job \<Rightarrow> bool" where
  "job_written env fset regionTag evs j =
     (\<exists>buf. format_Node env fset (example_node (job_example j)) = Inr buf
        \<and> EvWrite (job_file j) (''// [START '' @ regionTag @ ''_'' @ ex_Name (job_example j) @ '']\<newline>\<newline>'')
              \<in> set evs
        \<and> EvWrite (job_file j) (reformat buf) \<in> set evs
        \<and> EvWrite (job_file j) (''// [END '' @ regionTag @ ''_'' @ ex_Name (job_example j) @ '']\<newline>'')
              \<in> set evs)"

definition job_snippet ::
  "('a, 'f) env \<Rightarrow> 'f \<Rightarrow> string \<Rightarrow> world \<Rightarrow> 'a job \<Rightarrow> bool" where
  "job_snippet env fset regionTag w' j =
     (\<exists>buf w1. format_Node env fset (example_node (job_example j)) = Inr buf
        \<and> files w' (job_file j)
             = Some (snippet (licenseHeader (time_Now_Year env w1))
                       (regionTag @ ''_'' @ ex_Name (job_example j)) (reformat buf)))"

definition jobs_done ::
  "('a, 'f) env \<Rightarrow> 'f \<Rightarrow> string \<Rightarrow> 'a job list \<Rightarrow> world \<Rightarrow> world \<Rightarrow> bool" where
  "jobs_done env fset regionTag js w w' =
     (trace w' = trace w @ new_events w w'
      \<and> opened_files (new_events w w') = map job_file js
      \<and> (\<forall>j \<in> set js. job_written env fset regionTag (new_events w w') j)
      \<and> (\<forall>f. if f \<in> job_file ` set js
               then \<exists>j \<in> set js. job_file j = f \<and> job_snippet env fset regionTag w' j
               else files w' f = files w f))"

text \<open>
  The reformatting in the words of the specification: of a rendering that begins with a
  brace and a newline and ends with a newline and a brace, the first and the last line are
  dropped, every line between loses one leading tab if it has one and ends with a
  newline; any other rendering stays as it is.
\<close>

definition drop_one_tab :: "string \<Rightarrow> string" where
  "drop_one_tab line = (case line of [] \<Rightarrow> [] | c # rest \<Rightarrow> if c = CHR 0x09 then rest else line)"

definition reformat_spec :: "string \<Rightarrow> string" where
  "reformat_spec s =
     (if prefix ''{\<newline>'' s \<and> suffix ''\<newline>}'' s
      then concat (map (\<lambda>line. drop_one_tab line @ ''\<newline>'')
                    (butlast (tl (strings_Split s (CHR ''\<newline>'')))))
      else s)"

text \<open>
  The resolution of the shortname in the words of the specification: the value of the
  import path when it is a key; otherwise the value of the longest key that is a prefix of
  the import path; an error when no key is a prefix.
\<close>

definition longest_key :: "string list \<Rightarrow> string" where
  "longest_key ks = foldl (\<lambda>best k. if length best < length k then k else best) [] ks"

definition shortname_spec :: "(string \<rightharpoonup> string) \<Rightarrow> string list \<Rightarrow> string \<Rightarrow> error + string" where
  "shortname_spec apiShortnames keys importPath =
     (case apiShortnames importPath of
        Some shortname \<Rightarrow> Inr shortname
      | None \<Rightarrow>
          (let prefixes = filter (\<lambda>k. prefix k importPath) keys
           in if prefixes = []
              then Inl (''could not find API shortname for '' @ importPath)
              else (case apiShortnames (longest_key prefixes) of
                      Some shortname \<Rightarrow> Inr shortname
                    | None \<Rightarrow> Inr [])))"

text \<open>A package with one type, one method and the example above; and a shortname map.\<close>

definition demo_package :: "string Package" where
  "demo_package =
     \<lparr>pkg_ImportPath = ''cloud.google.com/go/kms/apiv1'',
      pkg_Funcs = [],
      pkg_Types =
        [\<lparr>ty_Name = ''Client'', ty_Examples = [], ty_Funcs = [],
          ty_Methods = [\<lparr>fn_Name = ''Get'', fn_Examples = [demo_example]\<rparr>]\<rparr>]\<rparr>"

definition demo_shortnames :: "string \<rightharpoonup> string" where
  "demo_shortnames = [''cloud.google.com/go/kms'' \<mapsto> ''cloudkms'']"

text \<open>
  A second example of the same symbol, and an outside whose clock shows 2021 until it has
  been read once and 2022 afterwards.
\<close>

definition demo_example_second :: "string Example" where
  "demo_example_second = demo_example\<lparr>ex_Name := ''Client_Get_second'', ex_Suffix := ''second''\<rparr>"

definition new_year_env :: "(string, unit) env" where
  "new_year_env = demo_env\<lparr>time_Now_Year := (\<lambda>w. if EvNow \<in> set (trace w) then 2022 else 2021)\<rparr>"

text \<open>
  For reasoning about cleaned paths: an element that \<^verbatim>\<open>Clean\<close> keeps as it is, and the
  shape of the stacks \<^verbatim>\<open>Clean\<close> builds: some \<^verbatim>\<open>..\<close> elements, none when the path is
  rooted, followed by elements kept as they are.
\<close>

definition normal :: "string \<Rightarrow> bool" where
  "normal el \<longleftrightarrow> el \<noteq> [] \<and> el \<noteq> ''.'' \<and> el \<noteq> ''..'' \<and> CHR ''/'' \<notin> set el"

definition wf_stack :: "bool \<Rightarrow> string list \<Rightarrow> bool" where
  "wf_stack rooted stk \<longleftrightarrow>
     (\<exists>n rest. stk = replicate n ''..'' @ rest \<and> (rooted \<longrightarrow> n = 0) \<and> (\<forall>el \<in> set rest. normal el))"

text \<open>
  The state in which \<^verbatim>\<open>header()\<close> is called for the \<open>i\<close>-th example of a run of
  \<^verbatim>\<open>writeExamples\<close> that starts in \<open>w\<close>: the state the loop has reached after the
  examples before it, followed by this round's \<^verbatim>\<open>MkdirAll\<close> and \<^verbatim>\<open>OpenFile\<close>.
\<close>

definition header_state ::
  "('a, 'f) env \<Rightarrow> string \<Rightarrow> 'a Example list \<Rightarrow> 'f \<Rightarrow> string \<Rightarrow> world \<Rightarrow> nat \<Rightarrow> world" where
  "header_state env outDir exs fset regionTag w i =
     (let n = length exs;
          ex = exs ! i;
          w_i = snd (writeExamples_loop env outDir n fset regionTag (take i exs) w)
      in snd (OpenFile env (example_filename outDir n ex)
                (snd (MkdirAll env (example_dir outDir n ex) w_i))))"

text \<open>
  Readings of a trace: the calls of the walk's callback; the events of writing a
  snippet; the directories loaded; the packages processed, each with the result of its
  \<^verbatim>\<open>processExamples\<close> call; and the errors among such results.
\<close>

fun is_walk :: "event \<Rightarrow> bool" where
  "is_walk (EvWalk path) = True"
| "is_walk ev = False"

fun is_output :: "event \<Rightarrow> bool" where
  "is_output (EvMkdirAll dir) = True"
| "is_output (EvOpenFile filename) = True"
| "is_output (EvWrite filename data) = True"
| "is_output EvNow = True"
| "is_output ev = False"

fun loads :: "event list \<Rightarrow> string list" where
  "loads [] = []"
| "loads (EvLoad dir # evs) = dir # loads evs"
| "loads (ev # evs) = loads evs"

fun processed :: "event list \<Rightarrow> (string \<times> error option) list" where
  "processed [] = []"
| "processed (EvProcess importPath result # evs) = (importPath, result) # processed evs"
| "processed (ev # evs) = processed evs"

fun failures :: "(string \<times> error option) list \<Rightarrow> error list" where
  "failures [] = []"
| "failures ((importPath, Some err) # results) = err # failures results"
| "failures ((importPath, None) # results) = failures results"

text \<open>A step that only adds events of one kind to the trace.\<close>

definition appends_only :: "(event \<Rightarrow> bool) \<Rightarrow> world \<Rightarrow> world \<Rightarrow> bool" where
  "appends_only P w w' = (\<exists>evs. trace w' = trace w @ evs \<and> list_all P evs)"

text \<open>
  Whether \<^verbatim>\<open>pkgload.Load\<close> succeeds for a directory, and the import paths of the
  packages it finds there.
\<close>

definition load_ok :: "('a, 'f) env \<Rightarrow> string \<Rightarrow> bool" where
  "load_ok env dir = (case pkgload_Load env dir of Inl err \<Rightarrow> False | Inr pis \<Rightarrow> True)"

definition loaded_packages :: "('a, 'f) env \<Rightarrow> string \<Rightarrow> string list" where
  "loaded_packages env dir =
     (case pkgload_Load env dir of
        Inl err \<Rightarrow> []
      | Inr pis \<Rightarrow> map (\<lambda>pinfo. pkg_ImportPath (fst pinfo)) pis)"

text \<open>
  The directories \<^verbatim>\<open>Generate\<close> collects: the slice \<^verbatim>\<open>dirs\<close> when the walk has ended.
\<close>

definition collected_dirs :: "('a, 'f) env \<Rightarrow> string \<Rightarrow> world \<Rightarrow> string list" where
  "collected_dirs env rootDir w =
     (let rootDir = (if rootDir = [] then ''.'' else rootDir)
      in fst (snd (WalkDir (os_Lstat env w rootDir) rootDir ([], w))))"

text \<open>
  The directories that contain a \<^verbatim>\<open>go.mod\<close> file, in the words of the
  specification: for every entry of the tree below \<open>path\<close> that is a file named
  \<^verbatim>\<open>go.mod\<close>, the directory of its path, in the order of the walk.
\<close>

fun gomod_dirs :: "string \<Rightarrow> node \<Rightarrow> string list"
and gomod_dirs_entries :: "string \<Rightarrow> node list \<Rightarrow> string list" where
  "gomod_dirs path (File name) = (if name = ''go.mod'' then [filepath_Dir path] else [])"
| "gomod_dirs path (Dir name entries) = gomod_dirs_entries path entries"
| "gomod_dirs path (Unreadable name) = []"
| "gomod_dirs_entries path [] = []"
| "gomod_dirs_entries path (d1 # rest) =
     gomod_dirs (filepath_Join [path, node_Name d1]) d1 @ gomod_dirs_entries path rest"

text \<open>
  A tree in which the walk skips nothing and meets no error: no entry is named
  \<^verbatim>\<open>internal\<close>, no directory is named \<^verbatim>\<open>go.mod\<close>, and every directory can be read.
\<close>

fun tidy :: "node \<Rightarrow> bool"
and tidy_entries :: "node list \<Rightarrow> bool" where
  "tidy (File name) = (name \<noteq> ''internal'')"
| "tidy (Dir name entries) = (name \<noteq> ''internal'' \<and> name \<noteq> ''go.mod'' \<and> tidy_entries entries)"
| "tidy (Unreadable name) = False"
| "tidy_entries [] = True"
| "tidy_entries (d1 # rest) = (tidy d1 \<and> tidy_entries rest)"

text \<open>
  Three modules \<^verbatim>\<open>a\<close>, \<^verbatim>\<open>b\<close> and \<^verbatim>\<open>c\<close> below the root; a package without
  symbols; an outside in which \<^verbatim>\<open>a\<close> and \<^verbatim>\<open>c\<close> hold one package each; and the same
  outside with a load of \<^verbatim>\<open>b\<close> that fails.
\<close>

definition three_modules :: node where
  "three_modules =
     Dir ''.'' [Dir ''a'' [File ''go.mod''], Dir ''b'' [File ''go.mod''], Dir ''c'' [File ''go.mod'']]"

definition named_package :: "string \<Rightarrow> string Package" where
  "named_package importPath = \<lparr>pkg_ImportPath = importPath, pkg_Funcs = [], pkg_Types = []\<rparr>"

definition modules_env :: "(string, unit) env" where
  "modules_env =
     demo_env\<lparr>os_Lstat := (\<lambda>w root. Some three_modules),
               pkgload_Load := (\<lambda>dir. if dir = ''a'' then Inr [(named_package ''p1'', ())]
                                       else if dir = ''c'' then Inr [(named_package ''p3'', ())]
                                       else Inr [])\<rparr>"


text \<open>A module below a directory named \<^verbatim>\<open>internal\<close>, beside a module \<^verbatim>\<open>kms\<close>.\<close>

definition internal_tree :: node where
  "internal_tree = Dir ''.'' [Dir ''internal'' [File ''go.mod''], Dir ''kms'' [File ''go.mod'']]"

definition internal_env :: "(string, unit) env" where
  "internal_env = demo_env\<lparr>os_Lstat := (\<lambda>w root. Some internal_tree)\<rparr>"

text \<open>
  The part of a tree the walk goes through when it meets no error: a directory named
  \<^verbatim>\<open>internal\<close> is left empty, and in every directory an entry named \<^verbatim>\<open>internal\<close>
  that is not a directory is dropped together with the entries after it.
\<close>

fun prune :: "node \<Rightarrow> node"
and prune_entries :: "node list \<Rightarrow> node list" where
  "prune (File name) = File name"
| "prune (Dir name entries) = (if name = ''internal'' then Dir name [] else Dir name (prune_entries entries))"
| "prune (Unreadable name) = Unreadable name"
| "prune_entries [] = []"
| "prune_entries (d1 # rest) =
     (if d1 = File ''internal'' then [] else prune d1 # prune_entries rest)"

text \<open>A tree in which every directory can be read and no directory is named \<^verbatim>\<open>go.mod\<close>.\<close>

fun regular :: "node \<Rightarrow> bool"
and regular_entries :: "node list \<Rightarrow> bool" where
  "regular (File name) = True"
| "regular (Dir name entries) = (name \<noteq> ''go.mod'' \<and> regular_entries entries)"
| "regular (Unreadable name) = False"
| "regular_entries [] = True"
| "regular_entries (d1 # rest) = (regular d1 \<and> regular_entries rest)"

section \<open>Properties\<close>

subsection \<open>Strings and the shortname search\<close>

lemma HasPrefix_iff_prefix: "strings_HasPrefix s pre \<longleftrightarrow> prefix pre s"
  unfolding strings_HasPrefix_def
  by (metis prefix_def append_eq_conv_conj prefix_length_le take_is_prefix)

lemma bestMatch_step_cases:
  "bestMatch_step p b k = (if prefix k p \<and> length b < length k then k else b)"
  by (simp add: bestMatch_step_def HasPrefix_iff_prefix)

text \<open>
  What the loop keeps from any start \<open>b\<close> that is a prefix of the import path: a prefix
  of the path, taken from the start or the keys, at least as long as every key that is a
  prefix.
\<close>

lemma bestMatch_foldl:
  assumes "prefix b p"
  shows "prefix (foldl (bestMatch_step p) b ks) p
     \<and> (foldl (bestMatch_step p) b ks = b \<or> foldl (bestMatch_step p) b ks \<in> set ks)
     \<and> length b \<le> length (foldl (bestMatch_step p) b ks)
     \<and> (\<forall>k \<in> set ks. prefix k p \<longrightarrow> length k \<le> length (foldl (bestMatch_step p) b ks))"
  using assms
proof (induction ks arbitrary: b)
  case Nil
  then show ?case by simp
next
  case (Cons k ks)
  let ?b' = "bestMatch_step p b k"
  have pre: "prefix ?b' p"
    using Cons.prems by (simp add: bestMatch_step_cases)
  have len: "length b \<le> length ?b'" "prefix k p \<Longrightarrow> length k \<le> length ?b'"
    by (simp_all add: bestMatch_step_cases)
  have mem: "?b' = b \<or> ?b' = k"
    by (simp add: bestMatch_step_cases)
  from Cons.IH [OF pre] len mem show ?case
    by auto
qed

lemma prefix_same_length: "prefix a p \<Longrightarrow> prefix b p \<Longrightarrow> length a = length b \<Longrightarrow> a = b"
  by (auto simp: prefix_def)

lemma bestMatch_loop_props:
  "prefix (bestMatch_loop p ks) p"
  "bestMatch_loop p ks = [] \<or> bestMatch_loop p ks \<in> set ks"
  "k \<in> set ks \<Longrightarrow> prefix k p \<Longrightarrow> length k \<le> length (bestMatch_loop p ks)"
  using bestMatch_foldl [of "[]" p ks] by (simp_all add: bestMatch_loop_def)

lemma bestMatch_loop_le:
  assumes "set ks \<subseteq> set ks'"
  shows "length (bestMatch_loop p ks) \<le> length (bestMatch_loop p ks')"
proof (cases "bestMatch_loop p ks = []")
  case True
  then show ?thesis by simp
next
  case False
  then have "bestMatch_loop p ks \<in> set ks'"
    using bestMatch_loop_props(2) [of p ks] assms by auto
  then show ?thesis
    using bestMatch_loop_props(1) [of p ks] bestMatch_loop_props(3) by blast
qed

lemma bestMatch_loop_order:
  assumes "set ks = set ks'"
  shows "bestMatch_loop p ks = bestMatch_loop p ks'"
proof (rule prefix_same_length)
  show "prefix (bestMatch_loop p ks) p" "prefix (bestMatch_loop p ks') p"
    by (rule bestMatch_loop_props(1))+
  show "length (bestMatch_loop p ks) = length (bestMatch_loop p ks')"
    using bestMatch_loop_le [of ks ks' p] bestMatch_loop_le [of ks' ks p] assms by simp
qed

text \<open>
  C9. The fallback search does not depend on the order in which the map is visited: two
  visiting orders of the same set of keys select the same \<^verbatim>\<open>bestMatch\<close>, hence the
  same shortname and the same result of \<^verbatim>\<open>processExamples\<close>. The reason is that two
  different prefixes of one import path differ in length, and the loop replaces its best
  match only by a strictly longer prefix.
\<close>

theorem bestMatch_order_independent:
  assumes "set keys1 = set keys2"
  shows "bestMatch_loop importPath keys1 = bestMatch_loop importPath keys2
    \<and> find_shortname apiShortnames keys1 importPath = find_shortname apiShortnames keys2 importPath
    \<and> (pkg_ImportPath pkg = importPath \<longrightarrow>
         processExamples env keys1 pkg fset trimPrefix outDir apiShortnames w
           = processExamples env keys2 pkg fset trimPrefix outDir apiShortnames w)
    \<and> (\<forall>a b. strings_HasPrefix importPath a \<and> strings_HasPrefix importPath b \<and> a \<noteq> b
           \<longrightarrow> length a \<noteq> length b)"
proof -
  have eq: "bestMatch_loop importPath keys1 = bestMatch_loop importPath keys2"
    using assms by (rule bestMatch_loop_order)
  have fs: "find_shortname apiShortnames keys1 importPath = find_shortname apiShortnames keys2 importPath"
    unfolding find_shortname_def eq by (rule refl)
  have pe: "pkg_ImportPath pkg = importPath \<longrightarrow>
         processExamples env keys1 pkg fset trimPrefix outDir apiShortnames w
           = processExamples env keys2 pkg fset trimPrefix outDir apiShortnames w"
    unfolding processExamples_def using fs by simp
  have "\<forall>a b. strings_HasPrefix importPath a \<and> strings_HasPrefix importPath b \<and> a \<noteq> b
           \<longrightarrow> length a \<noteq> length b"
    using prefix_same_length by (auto simp: HasPrefix_iff_prefix)
  with eq fs pe show ?thesis by simp
qed

theorem bestMatch_order_independent_witness:
  "bestMatch_loop ''abc'' [''a'', ''ab'', ''b''] = ''ab''
   \<and> bestMatch_loop ''abc'' [''ab'', ''b'', ''a''] = ''ab''"
proof -
  have s: "set [''a'', ''ab'', ''b''] = set [''ab'', ''b'', ''a'']"
    by auto
  have "bestMatch_loop ''abc'' [''a'', ''ab'', ''b''] = ''ab''"
    by (simp add: bestMatch_loop_def bestMatch_step_def strings_HasPrefix_def)
  with bestMatch_order_independent [OF s, THEN conjunct1, of "''abc''"] show ?thesis
    by simp
qed

subsection \<open>Steps that succeed\<close>

lemma and_then_None:
  "and_then r k = (None, w') \<longleftrightarrow> (\<exists>w1. r = (None, w1) \<and> k w1 = (None, w'))"
  by (cases r) (auto simp: and_then_def split: option.splits)

lemma MkdirAll_None:
  "MkdirAll env dir w = (None, w') \<longleftrightarrow>
     os_MkdirAll env w dir = None
     \<and> w' = w\<lparr>directories := insert dir (directories w), trace := trace w @ [EvMkdirAll dir]\<rparr>"
  by (auto simp: MkdirAll_def log_event_def split: option.splits)

lemma OpenFile_None:
  "OpenFile env f w = (None, w') \<longleftrightarrow>
     os_OpenFile env w f = None
     \<and> w' = w\<lparr>files := (files w)(f \<mapsto> []), trace := trace w @ [EvOpenFile f]\<rparr>"
  by (auto simp: OpenFile_def log_event_def split: option.splits)

lemma WriteString_None:
  "WriteString env f d w = (None, w') \<longleftrightarrow>
     file_Write env w f d = None
     \<and> w' = w\<lparr>files := (files w)(f \<mapsto> content w f @ d), trace := trace w @ [EvWrite f d]\<rparr>"
  by (auto simp: WriteString_def log_event_def split: option.splits)

text \<open>A round of the loop that returns no error has made exactly these changes.\<close>

lemma writeExample_None:
  assumes "writeExample env outDir n fset regionTag ex w = (None, w')"
  shows "\<exists>buf w1. format_Node env fset (example_node ex) = Inr buf
    \<and> w' = w\<lparr>files := (files w)(example_filename outDir n ex \<mapsto>
                snippet (licenseHeader (time_Now_Year env w1)) (regionTag @ ''_'' @ ex_Name ex) (reformat buf)),
             directories := insert (example_dir outDir n ex) (directories w),
             trace := trace w @
               [EvMkdirAll (example_dir outDir n ex),
                EvOpenFile (example_filename outDir n ex),
                EvNow,
                EvWrite (example_filename outDir n ex) (licenseHeader (time_Now_Year env w1)),
                EvWrite (example_filename outDir n ex)
                  (''// [START '' @ regionTag @ ''_'' @ ex_Name ex @ '']\<newline>\<newline>''),
                EvWrite (example_filename outDir n ex) (reformat buf),
                EvWrite (example_filename outDir n ex)
                  (''// [END '' @ regionTag @ ''_'' @ ex_Name ex @ '']\<newline>'')]\<rparr>"
proof (cases "format_Node env fset (example_node ex)")
  case (Inl e)
  with assms show ?thesis by (simp add: writeExample_def Let_def)
next
  case (Inr buf)
  let ?w1 = "w\<lparr>directories := insert (example_dir outDir n ex) (directories w),
               files := (files w)(example_filename outDir n ex \<mapsto> []),
               trace := trace w @ [EvMkdirAll (example_dir outDir n ex),
                                   EvOpenFile (example_filename outDir n ex)]\<rparr>"
  from assms Inr show ?thesis
    apply (intro exI [of _ buf] exI [of _ ?w1])
    apply (simp add: writeExample_def Let_def and_then_None header_def log_event_def
         MkdirAll_None OpenFile_None WriteString_None content_def snippet_def)
    done
qed

lemma writeExample_None_files:
  assumes "writeExample env outDir n fset regionTag ex w = (None, w')"
  shows "\<exists>buf y. format_Node env fset (example_node ex) = Inr buf
    \<and> files w' = (files w)(example_filename outDir n ex \<mapsto>
                snippet (licenseHeader y) (regionTag @ ''_'' @ ex_Name ex) (reformat buf))"
  using writeExample_None [OF assms] by auto

text \<open>
  After a loop that returns no error, a file named by one of the examples holds the
  snippet of an example with that file name; every other file is as before.
\<close>

lemma writeExamples_loop_files:
  assumes "writeExamples_loop env outDir n fset regionTag exs w = (None, w')"
  shows "(f \<in> example_filename outDir n ` set exs \<longrightarrow>
            (\<exists>ex \<in> set exs. \<exists>buf y. example_filename outDir n ex = f
               \<and> format_Node env fset (example_node ex) = Inr buf
               \<and> files w' f = Some (snippet (licenseHeader y) (regionTag @ ''_'' @ ex_Name ex) (reformat buf))))
       \<and> (f \<notin> example_filename outDir n ` set exs \<longrightarrow> files w' f = files w f)"
  using assms
proof (induction exs arbitrary: w)
  case Nil
  then show ?case by simp
next
  case (Cons ex rest)
  from Cons.prems obtain w1 where
    step: "writeExample env outDir n fset regionTag ex w = (None, w1)" and
    loop: "writeExamples_loop env outDir n fset regionTag rest w1 = (None, w')"
    by (auto simp: and_then_None)
  from writeExample_None_files [OF step] obtain buf y where
    fmt: "format_Node env fset (example_node ex) = Inr buf" and
    fs: "files w1 = (files w)(example_filename outDir n ex \<mapsto>
           snippet (licenseHeader y) (regionTag @ ''_'' @ ex_Name ex) (reformat buf))"
    by blast
  note IH = Cons.IH [OF loop]
  show ?case
  proof (cases "f \<in> example_filename outDir n ` set rest")
    case True
    with IH show ?thesis by auto
  next
    case False
    with IH have same: "files w' f = files w1 f" by simp
    show ?thesis
    proof (cases "f = example_filename outDir n ex")
      case True
      with same fs fmt show ?thesis by auto
    next
      case False
      with \<open>f \<notin> example_filename outDir n ` set rest\<close> same fs show ?thesis by simp
    qed
  qed
qed

text \<open>
  C1. When \<^verbatim>\<open>writeExamples\<close> returns no error, the file of every example holds a
  snippet: the license header, the line \<^verbatim>\<open>// [START tag]\<close> and a blank line, the
  formatted source of an example, and the line \<^verbatim>\<open>// [END tag]\<close> with the same tag,
  which is the region tag, an underscore and that example's name. The example is one
  written to that file (the last one, when several examples share a file name); when the
  file names are distinct it is the example itself.
\<close>

theorem writeExamples_snippet_files:
  assumes "writeExamples env outDir exs fset regionTag w = (None, w')"
  shows "(\<forall>ex \<in> set exs. \<exists>ex' \<in> set exs. \<exists>buf y.
            example_filename outDir (length exs) ex' = example_filename outDir (length exs) ex
          \<and> format_Node env fset (example_node ex') = Inr buf
          \<and> files w' (example_filename outDir (length exs) ex)
              = Some (snippet (licenseHeader y) (regionTag @ ''_'' @ ex_Name ex') (reformat buf)))
     \<and> (distinct (map (example_filename outDir (length exs)) exs) \<longrightarrow>
          (\<forall>ex \<in> set exs. \<exists>buf y.
             format_Node env fset (example_node ex) = Inr buf
           \<and> files w' (example_filename outDir (length exs) ex)
               = Some (snippet (licenseHeader y) (regionTag @ ''_'' @ ex_Name ex) (reformat buf))))"
proof -
  let ?fn = "example_filename outDir (length exs)"
  from assms have loop:
    "writeExamples_loop env outDir (length exs) fset regionTag exs w = (None, w')"
    by (cases exs) (simp_all add: writeExamples_def)
  have first: "\<exists>ex' \<in> set exs. \<exists>buf y. ?fn ex' = ?fn ex
          \<and> format_Node env fset (example_node ex') = Inr buf
          \<and> files w' (?fn ex) = Some (snippet (licenseHeader y) (regionTag @ ''_'' @ ex_Name ex') (reformat buf))"
    if "ex \<in> set exs" for ex
    using writeExamples_loop_files [OF loop, of "?fn ex"] that by blast
  have second: "\<exists>buf y. format_Node env fset (example_node ex) = Inr buf
           \<and> files w' (?fn ex) = Some (snippet (licenseHeader y) (regionTag @ ''_'' @ ex_Name ex) (reformat buf))"
    if d: "distinct (map ?fn exs)" and "ex \<in> set exs" for ex
  proof -
    from first [OF that(2)] obtain ex' buf y where
      ex': "ex' \<in> set exs" "?fn ex' = ?fn ex"
        "format_Node env fset (example_node ex') = Inr buf"
        "files w' (?fn ex) = Some (snippet (licenseHeader y) (regionTag @ ''_'' @ ex_Name ex') (reformat buf))"
      by blast
    from d have "inj_on ?fn (set exs)" by (simp add: distinct_map)
    with ex'(1,2) that(2) have "ex' = ex" by (auto dest: inj_onD)
    with ex' show ?thesis by blast
  qed
  from first second show ?thesis by blast
qed

subsection \<open>Evaluating the small run\<close>

lemmas path_eval = filepath_Join_def filepath_Clean_def clean_stack_def render_path_def
  clean_step_def filepath_Dir_def
lemmas string_eval = strings_HasPrefix_def strings_HasSuffix_def strings_TrimPrefix_def

lemma demo_filename: "example_filename ''out/Client/Get'' (Suc 0) demo_example = ''out/Client/Get/main.go''"
  by (simp add: example_filename_def example_dir_def path_eval)

lemma demo_reformat: "reformat (ex_Code demo_example) = ''x := 1\<newline>''"
  by (simp add: reformat_def demo_example_def string_eval)

lemma demo_run: "fst (writeExamples demo_env ''out/Client/Get'' [demo_example] () ''kms_generated_kms_apiv1'' demo_world) = None"
  by (simp add: Let_def writeExamples_def writeExample_def and_then_def MkdirAll_def OpenFile_def WriteString_def header_def demo_env_def example_node_def demo_example_def)

theorem writeExamples_snippet_files_witness:
  "\<exists>w'. writeExamples demo_env ''out/Client/Get'' [demo_example] () ''kms_generated_kms_apiv1'' demo_world = (None, w')
     \<and> (\<exists>y. files w' ''out/Client/Get/main.go''
            = Some (snippet (licenseHeader y) ''kms_generated_kms_apiv1_Client_Get'' ''x := 1\<newline>''))"
proof -
  obtain w' where run:
    "writeExamples demo_env ''out/Client/Get'' [demo_example] () ''kms_generated_kms_apiv1'' demo_world = (None, w')"
    using demo_run by (metis prod.collapse)
  have fmt: "format_Node demo_env () (example_node demo_example) = Inr (ex_Code demo_example)"
    by (simp add: demo_env_def example_node_def demo_example_def)
  have nm: "ex_Name demo_example = ''Client_Get''"
    by (simp add: demo_example_def)
  from writeExamples_snippet_files [OF run, THEN conjunct1]
  have "\<exists>y. files w' ''out/Client/Get/main.go''
            = Some (snippet (licenseHeader y) ''kms_generated_kms_apiv1_Client_Get'' ''x := 1\<newline>'')"
    by (simp add: demo_filename fmt demo_reformat [symmetric] nm)
  with run show ?thesis by blast
qed

subsection \<open>Jobs\<close>

lemma opened_files_append: "opened_files (xs @ ys) = opened_files xs @ opened_files ys"
  by (induction xs rule: opened_files.induct) simp_all

lemma jobs_done_Nil: "jobs_done env fset regionTag [] w w"
  by (simp add: jobs_done_def new_events_def)

lemma new_events_trans:
  assumes "trace w1 = trace w @ new_events w w1" "trace w' = trace w1 @ new_events w1 w'"
  shows "new_events w w' = new_events w w1 @ new_events w1 w'"
proof -
  from assms have "trace w' = trace w @ (new_events w w1 @ new_events w1 w')" by simp
  then show ?thesis unfolding new_events_def [of w w'] by simp
qed

lemma job_written_mono:
  "job_written env fset regionTag evs j \<Longrightarrow> set evs \<subseteq> set evs' \<Longrightarrow> job_written env fset regionTag evs' j"
  unfolding job_written_def by blast

lemma jobs_done_append:
  assumes a: "jobs_done env fset regionTag js1 w w1"
      and b: "jobs_done env fset regionTag js2 w1 w'"
  shows "jobs_done env fset regionTag (js1 @ js2) w w'"
proof -
  from a b have ne: "new_events w w' = new_events w w1 @ new_events w1 w'"
    by (simp add: jobs_done_def new_events_trans)
  have tr: "trace w' = trace w @ new_events w w'"
    using a b ne by (simp add: jobs_done_def)
  have op: "opened_files (new_events w w') = map job_file (js1 @ js2)"
    using a b ne by (simp add: jobs_done_def opened_files_append)
  have wr: "job_written env fset regionTag (new_events w w') j" if "j \<in> set (js1 @ js2)" for j
  proof (cases "j \<in> set js1")
    case True
    with a have "job_written env fset regionTag (new_events w w1) j"
      by (simp add: jobs_done_def)
    then show ?thesis by (rule job_written_mono) (simp add: ne)
  next
    case False
    with that b have "job_written env fset regionTag (new_events w1 w') j"
      by (simp add: jobs_done_def)
    then show ?thesis by (rule job_written_mono) (simp add: ne)
  qed
  have fl: "if f \<in> job_file ` set (js1 @ js2)
               then \<exists>j \<in> set (js1 @ js2). job_file j = f \<and> job_snippet env fset regionTag w' j
               else files w' f = files w f" for f
  proof (cases "f \<in> job_file ` set js2")
    case True
    with b obtain j where "j \<in> set js2" "job_file j = f" "job_snippet env fset regionTag w' j"
      unfolding jobs_done_def by (metis (no_types, lifting))
    with True show ?thesis by auto
  next
    case False
    with b have same: "files w' f = files w1 f"
      unfolding jobs_done_def by (metis (no_types, lifting))
    show ?thesis
    proof (cases "f \<in> job_file ` set js1")
      case True
      with a obtain j where j: "j \<in> set js1" "job_file j = f" "job_snippet env fset regionTag w1 j"
        unfolding jobs_done_def by (metis (no_types, lifting))
      from j(2,3) same have "job_snippet env fset regionTag w' j"
        by (simp add: job_snippet_def)
      with j True show ?thesis by auto
    next
      case True': False
      with a have "files w1 f = files w f"
        unfolding jobs_done_def by (metis (no_types, lifting))
      with False True' same show ?thesis by auto
    qed
  qed
  from tr op wr fl show ?thesis unfolding jobs_done_def by blast
qed

lemma writeExample_jobs_done:
  assumes "writeExample env outDir n fset regionTag ex w = (None, w')"
  shows "jobs_done env fset regionTag [(outDir, n, ex)] w w'"
proof -
  from writeExample_None [OF assms] obtain buf w1 where
    fmt: "format_Node env fset (example_node ex) = Inr buf" and
    w': "w' = w\<lparr>files := (files w)(example_filename outDir n ex \<mapsto>
                snippet (licenseHeader (time_Now_Year env w1)) (regionTag @ ''_'' @ ex_Name ex) (reformat buf)),
             directories := insert (example_dir outDir n ex) (directories w),
             trace := trace w @
               [EvMkdirAll (example_dir outDir n ex),
                EvOpenFile (example_filename outDir n ex),
                EvNow,
                EvWrite (example_filename outDir n ex) (licenseHeader (time_Now_Year env w1)),
                EvWrite (example_filename outDir n ex)
                  (''// [START '' @ regionTag @ ''_'' @ ex_Name ex @ '']\<newline>\<newline>''),
                EvWrite (example_filename outDir n ex) (reformat buf),
                EvWrite (example_filename outDir n ex)
                  (''// [END '' @ regionTag @ ''_'' @ ex_Name ex @ '']\<newline>'')]\<rparr>"
    by blast
  show ?thesis
    unfolding jobs_done_def new_events_def job_written_def job_snippet_def
    using fmt by (auto simp: w' job_file_def job_example_def)
qed

lemma writeExamples_loop_jobs_done:
  assumes "writeExamples_loop env outDir n fset regionTag exs w = (None, w')"
  shows "jobs_done env fset regionTag (map (\<lambda>ex. (outDir, n, ex)) exs) w w'"
  using assms
proof (induction exs arbitrary: w)
  case Nil
  then show ?case by (simp add: jobs_done_Nil)
next
  case (Cons ex rest)
  from Cons.prems obtain w1 where
    step: "writeExample env outDir n fset regionTag ex w = (None, w1)" and
    loop: "writeExamples_loop env outDir n fset regionTag rest w1 = (None, w')"
    by (auto simp: and_then_None)
  from jobs_done_append [OF writeExample_jobs_done [OF step] Cons.IH [OF loop]]
  show ?case by simp
qed

lemma writeExamples_jobs_done:
  assumes "writeExamples env outDir exs fset regionTag w = (None, w')"
  shows "jobs_done env fset regionTag (symbol_jobs (outDir, exs)) w w'"
proof (cases exs)
  case Nil
  with assms show ?thesis by (simp add: writeExamples_def symbol_jobs_def jobs_done_Nil)
next
  case (Cons ex rest)
  with assms have "writeExamples_loop env outDir (length exs) fset regionTag exs w = (None, w')"
    by (simp add: writeExamples_def)
  from writeExamples_loop_jobs_done [OF this] show ?thesis
    by (simp add: symbol_jobs_def)
qed

lemma funcs_loop_jobs_done:
  assumes "funcs_loop env dir fset regionTag fs w = (None, w')"
  shows "jobs_done env fset regionTag (concat (map symbol_jobs (func_symbols dir fs))) w w'"
  using assms
proof (induction fs arbitrary: w)
  case Nil
  then show ?case by (simp add: func_symbols_def jobs_done_Nil)
next
  case (Cons f rest)
  from Cons.prems obtain w1 where
    step: "writeExamples env (filepath_Join [dir, fn_Name f]) (fn_Examples f) fset regionTag w = (None, w1)" and
    loop: "funcs_loop env dir fset regionTag rest w1 = (None, w')"
    by (auto simp: and_then_None)
  from jobs_done_append [OF writeExamples_jobs_done [OF step] Cons.IH [OF loop]]
  show ?case by (simp add: func_symbols_def)
qed

lemma types_loop_jobs_done:
  assumes "types_loop env outDir fset regionTag ts w = (None, w')"
  shows "jobs_done env fset regionTag (concat (map symbol_jobs (concat (map (type_symbols outDir) ts)))) w w'"
  using assms
proof (induction ts arbitrary: w)
  case Nil
  then show ?case by (simp add: jobs_done_Nil)
next
  case (Cons t rest)
  let ?dir = "filepath_Join [outDir, ty_Name t]"
  from Cons.prems obtain w1 w2 w3 where
    s1: "writeExamples env ?dir (ty_Examples t) fset regionTag w = (None, w1)" and
    s2: "funcs_loop env ?dir fset regionTag (ty_Funcs t) w1 = (None, w2)" and
    s3: "funcs_loop env ?dir fset regionTag (ty_Methods t) w2 = (None, w3)" and
    loop: "types_loop env outDir fset regionTag rest w3 = (None, w')"
    by (auto simp: and_then_None Let_def)
  from jobs_done_append [OF writeExamples_jobs_done [OF s1]
        jobs_done_append [OF funcs_loop_jobs_done [OF s2]
          jobs_done_append [OF funcs_loop_jobs_done [OF s3] Cons.IH [OF loop]]]]
  show ?case by (simp add: type_symbols_def)
qed

text \<open>
  A call of \<^verbatim>\<open>processExamples\<close> for a package that is not skipped returns no error only
  if a shortname was found, and has then done the jobs of all symbols of the package with
  the region tag built from that shortname.
\<close>

lemma processExamples_jobs_done:
  assumes "processExamples env keys pkg fset trimPrefix outDir apiShortnames w = (None, w')"
      and "\<not> skip (pkg_ImportPath pkg)"
  shows "\<exists>shortname. find_shortname apiShortnames keys (pkg_ImportPath pkg) = Inr shortname
     \<and> jobs_done env fset
          (region_tag shortname (strings_TrimPrefix (pkg_ImportPath pkg) trimPrefix))
          (concat (map symbol_jobs
             (symbols (filepath_Join [outDir, strings_TrimPrefix (pkg_ImportPath pkg) trimPrefix]) pkg)))
          w w'"
proof (cases "find_shortname apiShortnames keys (pkg_ImportPath pkg)")
  case (Inl e)
  with assms show ?thesis by (simp add: processExamples_def Let_def)
next
  case (Inr shortname)
  let ?dir = "filepath_Join [outDir, strings_TrimPrefix (pkg_ImportPath pkg) trimPrefix]"
  let ?tag = "region_tag shortname (strings_TrimPrefix (pkg_ImportPath pkg) trimPrefix)"
  from assms Inr obtain w1 where
    s1: "funcs_loop env ?dir fset ?tag (pkg_Funcs pkg) w = (None, w1)" and
    s2: "types_loop env ?dir fset ?tag (pkg_Types pkg) w1 = (None, w')"
    by (auto simp: processExamples_def Let_def and_then_None)
  from jobs_done_append [OF funcs_loop_jobs_done [OF s1] types_loop_jobs_done [OF s2]] Inr
  show ?thesis by (simp add: symbols_def)
qed

subsection \<open>The shortname and the region tag\<close>

lemma bestMatch_foldl_filter:
  "foldl (bestMatch_step p) b keys
     = foldl (\<lambda>best k. if length best < length k then k else best) b (filter (\<lambda>k. prefix k p) keys)"
  by (induction keys arbitrary: b) (simp_all add: bestMatch_step_cases)

lemma longer_foldl_nonempty:
  "foldl (\<lambda>best k. if length best < length k then k else best) b (filter (\<lambda>k. k \<noteq> []) ks)
     = foldl (\<lambda>best k. if length best < length k then k else best) b ks"
  by (induction ks arbitrary: b) simp_all

lemma longer_foldl_length:
  "length b \<le> length (foldl (\<lambda>best k. if length best < length k then k else best) b ks)
   \<and> (\<forall>k \<in> set ks. length k \<le> length (foldl (\<lambda>best k. if length best < length k then k else best) b ks))"
proof (induction ks arbitrary: b)
  case Nil
  then show ?case by simp
next
  case (Cons k ks)
  let ?b' = "if length b < length k then k else b"
  from Cons.IH [of ?b'] show ?case by (auto split: if_splits)
qed

lemma longer_foldl_mem:
  "foldl (\<lambda>best k. if length best < length k then k else best) b ks \<in> insert b (set ks)"
  by (induction ks arbitrary: b) auto

text \<open>\<open>longest_key\<close> picks a key of greatest length (the empty string for no key).\<close>

lemma longest_key_longest:
  "ks \<noteq> [] \<Longrightarrow> longest_key ks \<in> set ks \<or> longest_key ks = []"
  "k \<in> set ks \<Longrightarrow> length k \<le> length (longest_key ks)"
  using longer_foldl_mem [of "[]" ks] longer_foldl_length [of "[]" ks]
  by (auto simp: longest_key_def)

lemma bestMatch_loop_longest_key:
  "bestMatch_loop p keys = longest_key (filter (\<lambda>k. prefix k p) (filter (\<lambda>k. k \<noteq> []) keys))"
proof -
  have "bestMatch_loop p keys = longest_key (filter (\<lambda>k. prefix k p) keys)"
    by (simp add: bestMatch_loop_def longest_key_def bestMatch_foldl_filter)
  also have "\<dots> = longest_key (filter (\<lambda>k. k \<noteq> []) (filter (\<lambda>k. prefix k p) keys))"
    unfolding longest_key_def by (rule longer_foldl_nonempty [symmetric])
  also have "filter (\<lambda>k. k \<noteq> []) (filter (\<lambda>k. prefix k p) keys)
      = filter (\<lambda>k. prefix k p) (filter (\<lambda>k. k \<noteq> []) keys)"
    by (simp add: conj_commute)
  finally show ?thesis .
qed

lemma bestMatch_loop_empty_iff:
  "bestMatch_loop p keys = [] \<longleftrightarrow> filter (\<lambda>k. prefix k p) (filter (\<lambda>k. k \<noteq> []) keys) = []"
proof
  assume e: "bestMatch_loop p keys = []"
  show "filter (\<lambda>k. prefix k p) (filter (\<lambda>k. k \<noteq> []) keys) = []"
  proof (rule ccontr)
    assume "filter (\<lambda>k. prefix k p) (filter (\<lambda>k. k \<noteq> []) keys) \<noteq> []"
    then obtain k where k: "k \<in> set (filter (\<lambda>k. prefix k p) (filter (\<lambda>k. k \<noteq> []) keys))"
      using last_in_set by blast
    from longest_key_longest(2) [OF k] e have "length k \<le> 0"
      by (simp add: bestMatch_loop_longest_key)
    with k show False by simp
  qed
next
  assume "filter (\<lambda>k. prefix k p) (filter (\<lambda>k. k \<noteq> []) keys) = []"
  then show "bestMatch_loop p keys = []"
    by (simp add: bestMatch_loop_longest_key longest_key_def)
qed

lemma find_shortname_spec:
  "find_shortname apiShortnames keys importPath
     = shortname_spec apiShortnames (filter (\<lambda>k. k \<noteq> []) keys) importPath"
proof (cases "apiShortnames importPath")
  case (Some v)
  then show ?thesis by (simp add: find_shortname_def shortname_spec_def)
next
  case None
  show ?thesis
  proof (cases "bestMatch_loop importPath keys = []")
    case True
    with None show ?thesis
      using bestMatch_loop_empty_iff [of importPath keys]
      by (simp add: find_shortname_def shortname_spec_def del: filter_filter)
  next
    case False
    with None show ?thesis
      using bestMatch_loop_empty_iff [of importPath keys]
      by (simp add: find_shortname_def shortname_spec_def Let_def
            bestMatch_loop_longest_key [symmetric] del: filter_filter)
  qed
qed

text \<open>
  C3 (as amended). For a package that is not skipped the shortname is the value of the
  import path when it is a key of the map; otherwise the value of the longest non-empty
  key that is a prefix of the import path; and when no non-empty key is a prefix,
  \<^verbatim>\<open>processExamples\<close> returns the error and leaves the state as it was: it has written
  no file.
\<close>

theorem shortname_resolution:
  assumes "\<not> skip (pkg_ImportPath pkg)"
  shows "find_shortname apiShortnames keys (pkg_ImportPath pkg)
           = shortname_spec apiShortnames (filter (\<lambda>k. k \<noteq> []) keys) (pkg_ImportPath pkg)
     \<and> (\<forall>err. find_shortname apiShortnames keys (pkg_ImportPath pkg) = Inl err \<longrightarrow>
          processExamples env keys pkg fset trimPrefix outDir apiShortnames w = (Some err, w))
     \<and> (apiShortnames (pkg_ImportPath pkg) = None
          \<and> filter (\<lambda>k. prefix k (pkg_ImportPath pkg)) (filter (\<lambda>k. k \<noteq> []) keys) = [] \<longrightarrow>
          processExamples env keys pkg fset trimPrefix outDir apiShortnames w
            = (Some (''could not find API shortname for '' @ pkg_ImportPath pkg), w))"
proof -
  have a: "find_shortname apiShortnames keys (pkg_ImportPath pkg)
           = shortname_spec apiShortnames (filter (\<lambda>k. k \<noteq> []) keys) (pkg_ImportPath pkg)"
    by (rule find_shortname_spec)
  have b: "processExamples env keys pkg fset trimPrefix outDir apiShortnames w = (Some err, w)"
    if "find_shortname apiShortnames keys (pkg_ImportPath pkg) = Inl err" for err
    using that assms by (simp add: processExamples_def Let_def)
  have c: "find_shortname apiShortnames keys (pkg_ImportPath pkg)
             = Inl (''could not find API shortname for '' @ pkg_ImportPath pkg)"
    if "apiShortnames (pkg_ImportPath pkg) = None"
       "filter (\<lambda>k. prefix k (pkg_ImportPath pkg)) (filter (\<lambda>k. k \<noteq> []) keys) = []"
    using that by (simp add: a shortname_spec_def del: filter_filter)
  from a b c show ?thesis by blast
qed


theorem shortname_resolution_witness:
  "\<not> skip ''cloud.google.com/go/bigtable/bttest''
   \<and> find_shortname
         [''cloud.google.com/go/bigtable'' \<mapsto> ''bigtable'', ''cloud.google.com/go/kms'' \<mapsto> ''cloudkms'', [] \<mapsto> ''x'']
         [''cloud.google.com/go/kms'', [], ''cloud.google.com/go/bigtable'']
         ''cloud.google.com/go/bigtable/bttest'' = Inr ''bigtable''"
proof -
  let ?pkg = "\<lparr>pkg_ImportPath = ''cloud.google.com/go/bigtable/bttest'', pkg_Funcs = [], pkg_Types = []\<rparr>
                :: string Package"
  have ns: "\<not> skip (pkg_ImportPath ?pkg)"
    by (simp add: skip_def)
  have "shortname_spec
         [''cloud.google.com/go/bigtable'' \<mapsto> ''bigtable'', ''cloud.google.com/go/kms'' \<mapsto> ''cloudkms'', [] \<mapsto> ''x'']
         (filter (\<lambda>k. k \<noteq> []) [''cloud.google.com/go/kms'', [], ''cloud.google.com/go/bigtable''])
         ''cloud.google.com/go/bigtable/bttest'' = Inr ''bigtable''"
    by (simp add: shortname_spec_def longest_key_def)
  with shortname_resolution [OF ns, THEN conjunct1] ns show ?thesis
    by simp
qed

text \<open>
  The claim as stated fails when the empty string is a key of the map: it is a prefix of
  every import path, so the claim promises its shortname, but the search never selects it
  and \<^verbatim>\<open>processExamples\<close> returns the error.
\<close>

theorem shortname_empty_key_counterexample:
  "shortname_spec [[] \<mapsto> ''x''] [[]] ''foo'' = Inr ''x''
   \<and> find_shortname [[] \<mapsto> ''x''] [[]] ''foo'' = Inl ''could not find API shortname for foo''
   \<and> processExamples demo_env [[]] \<lparr>pkg_ImportPath = ''foo'', pkg_Funcs = [], pkg_Types = []\<rparr> ()
        ''cloud.google.com/go'' ''out'' [[] \<mapsto> ''x''] demo_world
      = (Some ''could not find API shortname for foo'', demo_world)"
  by (simp add: shortname_spec_def longest_key_def find_shortname_def bestMatch_loop_def
        bestMatch_step_def strings_HasPrefix_def processExamples_def skip_def)

subsection \<open>What a processed package leaves behind\<close>

lemma ReplaceAll_slash:
  "strings_ReplaceAll s ''/'' ''_'' = map (\<lambda>c. if c = CHR ''/'' then CHR ''_'' else c) s"
  by (induction s) (simp_all add: strings_HasPrefix_def)

lemma jobs_done_written:
  "jobs_done env fset regionTag js w w' \<Longrightarrow> j \<in> set js
     \<Longrightarrow> job_written env fset regionTag (new_events w w') j"
  unfolding jobs_done_def by blast

lemma jobs_done_opened:
  "jobs_done env fset regionTag js w w' \<Longrightarrow> opened_files (new_events w w') = map job_file js"
  unfolding jobs_done_def by blast

lemma jobs_done_snippet:
  "jobs_done env fset regionTag js w w' \<Longrightarrow> j \<in> set js
     \<Longrightarrow> \<exists>j' \<in> set js. job_file j' = job_file j \<and> job_snippet env fset regionTag w' j'"
  unfolding jobs_done_def by (metis (no_types, lifting) imageI)

lemma symbol_example_job:
  "ex \<in> set (snd symbol) \<Longrightarrow> (fst symbol, length (snd symbol), ex) \<in> set (symbol_jobs symbol)"
  by (cases symbol) (auto simp: symbol_jobs_def)

text \<open>
  C2. For a package that is processed without error, the \<^verbatim>\<open>[START]\<close> and \<^verbatim>\<open>[END]\<close>
  lines written to the file of every example of every symbol carry the tag made of the
  package's shortname, \<^verbatim>\<open>_generated\<close>, the import path without the prefix
  \<^verbatim>\<open>cloud.google.com/go\<close> and with every slash replaced by an underscore, an underscore,
  and the example's name.
\<close>

theorem region_tag_from_shortname:
  assumes "processExamples env keys pkg fset ''cloud.google.com/go'' outDir apiShortnames w = (None, w')"
      and "\<not> skip (pkg_ImportPath pkg)"
  shows "\<exists>shortname. find_shortname apiShortnames keys (pkg_ImportPath pkg) = Inr shortname
     \<and> (\<forall>symbol \<in> set (symbols (filepath_Join [outDir,
                            strings_TrimPrefix (pkg_ImportPath pkg) ''cloud.google.com/go'']) pkg).
         \<forall>ex \<in> set (snd symbol).
           EvWrite (example_filename (fst symbol) (length (snd symbol)) ex)
             (''// [START '' @ shortname @ ''_generated''
                @ map (\<lambda>c. if c = CHR ''/'' then CHR ''_'' else c)
                    (strings_TrimPrefix (pkg_ImportPath pkg) ''cloud.google.com/go'')
                @ ''_'' @ ex_Name ex @ '']\<newline>\<newline>'') \<in> set (new_events w w')
         \<and> EvWrite (example_filename (fst symbol) (length (snd symbol)) ex)
             (''// [END '' @ shortname @ ''_generated''
                @ map (\<lambda>c. if c = CHR ''/'' then CHR ''_'' else c)
                    (strings_TrimPrefix (pkg_ImportPath pkg) ''cloud.google.com/go'')
                @ ''_'' @ ex_Name ex @ '']\<newline>'') \<in> set (new_events w w'))"
proof -
  let ?trimmed = "strings_TrimPrefix (pkg_ImportPath pkg) ''cloud.google.com/go''"
  let ?syms = "symbols (filepath_Join [outDir, ?trimmed]) pkg"
  from processExamples_jobs_done [OF assms] obtain shortname where
    sn: "find_shortname apiShortnames keys (pkg_ImportPath pkg) = Inr shortname" and
    jd: "jobs_done env fset (region_tag shortname ?trimmed) (concat (map symbol_jobs ?syms)) w w'"
    by blast
  have "job_written env fset (region_tag shortname ?trimmed) (new_events w w')
          (fst symbol, length (snd symbol), ex)"
    if "symbol \<in> set ?syms" "ex \<in> set (snd symbol)" for symbol ex
  proof -
    from that have "(fst symbol, length (snd symbol), ex) \<in> set (concat (map symbol_jobs ?syms))"
      using symbol_example_job by fastforce
    with jd show ?thesis by (rule jobs_done_written)
  qed
  then have "\<forall>symbol \<in> set ?syms. \<forall>ex \<in> set (snd symbol).
           EvWrite (example_filename (fst symbol) (length (snd symbol)) ex)
             (''// [START '' @ shortname @ ''_generated''
                @ map (\<lambda>c. if c = CHR ''/'' then CHR ''_'' else c) ?trimmed
                @ ''_'' @ ex_Name ex @ '']\<newline>\<newline>'') \<in> set (new_events w w')
         \<and> EvWrite (example_filename (fst symbol) (length (snd symbol)) ex)
             (''// [END '' @ shortname @ ''_generated''
                @ map (\<lambda>c. if c = CHR ''/'' then CHR ''_'' else c) ?trimmed
                @ ''_'' @ ex_Name ex @ '']\<newline>'') \<in> set (new_events w w')"
    by (auto simp: job_written_def job_file_def job_example_def region_tag_def ReplaceAll_slash)
  with sn show ?thesis by blast
qed

text \<open>
  C10. A package whose import path is in the \<^verbatim>\<open>skip\<close> map makes \<^verbatim>\<open>processExamples\<close>
  return no error and leave the state as it was; so does an empty list of examples for
  \<^verbatim>\<open>writeExamples\<close>: no directory is made, no file is opened or written.
\<close>

theorem no_output_when_skipped_or_empty:
  "(skip (pkg_ImportPath pkg) \<longrightarrow>
      processExamples env keys pkg fset trimPrefix outDir apiShortnames w = (None, w))
   \<and> writeExamples env outDir [] fset regionTag w = (None, w)"
  by (simp add: processExamples_def writeExamples_def)


lemma demo_find_shortname:
  "find_shortname demo_shortnames [''cloud.google.com/go/kms''] ''cloud.google.com/go/kms/apiv1'' = Inr ''cloudkms''"
  by (simp add: find_shortname_def demo_shortnames_def bestMatch_loop_def bestMatch_step_def
        strings_HasPrefix_def)

lemma demo_trimmed:
  "strings_TrimPrefix ''cloud.google.com/go/kms/apiv1'' ''cloud.google.com/go'' = ''/kms/apiv1''"
  by (simp add: string_eval)

lemma demo_outDir: "filepath_Join [''out'', ''/kms/apiv1''] = ''out/kms/apiv1''"
  by (simp add: path_eval)

lemma demo_symbols:
  "symbols ''out/kms/apiv1'' demo_package
     = [(''out/kms/apiv1/Client'', []), (''out/kms/apiv1/Client/Get'', [demo_example])]"
  by (simp add: symbols_def type_symbols_def func_symbols_def demo_package_def path_eval)

lemma demo_package_filename:
  "example_filename ''out/kms/apiv1/Client/Get'' (Suc 0) demo_example = ''out/kms/apiv1/Client/Get/main.go''"
  by (simp add: example_filename_def example_dir_def path_eval)

lemma demo_not_skipped: "\<not> skip (pkg_ImportPath demo_package)"
  by (simp add: skip_def demo_package_def)

lemma demo_process_run:
  "fst (processExamples demo_env [''cloud.google.com/go/kms''] demo_package () ''cloud.google.com/go''
          ''out'' demo_shortnames demo_world) = None"
proof -
  have run: "fst (writeExamples demo_env ''out/kms/apiv1/Client/Get'' [demo_example] () tag w) = None" for tag w
    by (simp add: Let_def writeExamples_def writeExample_def and_then_def MkdirAll_def OpenFile_def
          WriteString_def header_def demo_env_def example_node_def demo_example_def)
  have j1: "filepath_Join [''out/kms/apiv1'', ''Client''] = ''out/kms/apiv1/Client''"
    by (simp add: path_eval)
  have j2: "filepath_Join [''out/kms/apiv1/Client'', ''Get''] = ''out/kms/apiv1/Client/Get''"
    by (simp add: path_eval)
  have "processExamples demo_env [''cloud.google.com/go/kms''] demo_package () ''cloud.google.com/go''
          ''out'' demo_shortnames demo_world
        = writeExamples demo_env ''out/kms/apiv1/Client/Get'' [demo_example] ()
            (region_tag ''cloudkms'' ''/kms/apiv1'') demo_world"
    using demo_not_skipped
    apply (simp add: processExamples_def Let_def demo_package_def demo_find_shortname demo_trimmed
          demo_outDir j1 j2 writeExamples_def [of _ _ "[]"] and_then_def)
    apply (cases "writeExamples demo_env ''out/kms/apiv1/Client/Get'' [demo_example] ()
            (region_tag ''cloudkms'' ''/kms/apiv1'') demo_world")
    subgoal for r w' using run [of "region_tag ''cloudkms'' ''/kms/apiv1''" demo_world]
      by (simp split: option.splits)
    done
  with run show ?thesis by simp
qed

theorem region_tag_from_shortname_witness:
  "\<exists>w'. processExamples demo_env [''cloud.google.com/go/kms''] demo_package () ''cloud.google.com/go''
          ''out'' demo_shortnames demo_world = (None, w')
     \<and> EvWrite ''out/kms/apiv1/Client/Get/main.go''
          ''// [START cloudkms_generated_kms_apiv1_Client_Get]\<newline>\<newline>'' \<in> set (trace w')
     \<and> EvWrite ''out/kms/apiv1/Client/Get/main.go''
          ''// [END cloudkms_generated_kms_apiv1_Client_Get]\<newline>'' \<in> set (trace w')"
proof -
  obtain w' where run:
    "processExamples demo_env [''cloud.google.com/go/kms''] demo_package () ''cloud.google.com/go''
          ''out'' demo_shortnames demo_world = (None, w')"
    using demo_process_run by (metis prod.collapse)
  have ip: "pkg_ImportPath demo_package = ''cloud.google.com/go/kms/apiv1''"
    by (simp add: demo_package_def)
  have ne: "new_events demo_world w' = trace w'"
    by (simp add: new_events_def demo_world_def)
  have nm: "ex_Name demo_example = ''Client_Get''"
    by (simp add: demo_example_def)
  from region_tag_from_shortname [OF run demo_not_skipped]
  have "EvWrite ''out/kms/apiv1/Client/Get/main.go''
          ''// [START cloudkms_generated_kms_apiv1_Client_Get]\<newline>\<newline>'' \<in> set (trace w')
     \<and> EvWrite ''out/kms/apiv1/Client/Get/main.go''
          ''// [END cloudkms_generated_kms_apiv1_Client_Get]\<newline>'' \<in> set (trace w')"
    by (simp add: ip demo_find_shortname demo_trimmed demo_outDir demo_symbols
          demo_package_filename ne nm)
  with run show ?thesis by blast
qed

theorem no_output_when_skipped_or_empty_witness:
  "processExamples demo_env [] (demo_package\<lparr>pkg_ImportPath := ''cloud.google.com/go/civil''\<rparr>) ()
      ''cloud.google.com/go'' ''out'' demo_shortnames demo_world = (None, demo_world)
   \<and> writeExamples demo_env ''out'' [] () ''tag'' demo_world = (None, demo_world)"
proof -
  have "skip (pkg_ImportPath (demo_package\<lparr>pkg_ImportPath := ''cloud.google.com/go/civil''\<rparr>))"
    by (simp add: skip_def)
  with no_output_when_skipped_or_empty
    [where pkg = "demo_package\<lparr>pkg_ImportPath := ''cloud.google.com/go/civil''\<rparr>"
       and env = demo_env and keys = "[]" and fset = "()" and trimPrefix = "''cloud.google.com/go''"
       and outDir = "''out''" and apiShortnames = demo_shortnames and w = demo_world
       and regionTag = "''tag''"]
  show ?thesis by simp
qed

subsection \<open>The license header\<close>

text \<open>When nothing outside fails and the printer renders every example, the loop succeeds.\<close>

lemma writeExample_never_fails:
  assumes "\<And>w dir. os_MkdirAll env w dir = None"
      and "\<And>w filename. os_OpenFile env w filename = None"
      and "\<And>w filename data. file_Write env w filename data = None"
      and "format_Node env fset (example_node ex) = Inr buf"
  shows "fst (writeExample env outDir n fset regionTag ex w) = None"
  by (simp add: writeExample_def Let_def and_then_def MkdirAll_def OpenFile_def WriteString_def
        header_def assms)

lemma writeExamples_loop_never_fails:
  assumes "\<And>w dir. os_MkdirAll env w dir = None"
      and "\<And>w filename. os_OpenFile env w filename = None"
      and "\<And>w filename data. file_Write env w filename data = None"
      and "\<forall>ex \<in> set exs. \<exists>buf. format_Node env fset (example_node ex) = Inr buf"
  shows "fst (writeExamples_loop env outDir n fset regionTag exs w) = None"
  using assms(4)
proof (induction exs arbitrary: w)
  case Nil
  then show ?case by simp
next
  case (Cons ex rest)
  then obtain buf where "format_Node env fset (example_node ex) = Inr buf"
    by auto
  from writeExample_never_fails [OF assms(1-3) this, of outDir n regionTag w]
  obtain w1 where "writeExample env outDir n fset regionTag ex w = (None, w1)"
    by (metis prod.collapse)
  with Cons show ?case by (simp add: and_then_def)
qed

lemma demo_env_renders: "\<exists>buf. format_Node demo_env fset (example_node ex) = Inr buf"
  by (cases "example_node ex") (simp_all add: demo_env_def)

lemma and_then_assoc:
  "and_then (and_then r k) k' = and_then r (\<lambda>w. and_then (k w) k')"
  by (cases r) (auto simp: and_then_def split: option.splits)

lemma writeExamples_loop_append:
  "writeExamples_loop env outDir n fset regionTag (xs @ ys) w
     = and_then (writeExamples_loop env outDir n fset regionTag xs w)
         (writeExamples_loop env outDir n fset regionTag ys)"
proof (induction xs arbitrary: w)
  case Nil
  then show ?case by (simp add: and_then_def)
next
  case (Cons x xs)
  have "writeExamples_loop env outDir n fset regionTag (xs @ ys)
      = (\<lambda>w. and_then (writeExamples_loop env outDir n fset regionTag xs w)
                  (writeExamples_loop env outDir n fset regionTag ys))"
    by (rule ext) (rule Cons.IH)
  then show ?case by (simp add: and_then_assoc)
qed

text \<open>A loop that returns no error, cut at its \<open>i\<close>-th round.\<close>

lemma writeExamples_loop_split:
  assumes "writeExamples_loop env outDir n fset regionTag exs w = (None, w')" and "i < length exs"
  shows "\<exists>wi wi'. writeExamples_loop env outDir n fset regionTag (take i exs) w = (None, wi)
          \<and> writeExample env outDir n fset regionTag (exs ! i) wi = (None, wi')
          \<and> writeExamples_loop env outDir n fset regionTag (drop (Suc i) exs) wi' = (None, w')"
proof -
  have "exs = take i exs @ (exs ! i # drop (Suc i) exs)"
    using assms(2) by (simp add: id_take_nth_drop)
  then have "writeExamples_loop env outDir n fset regionTag (take i exs @ (exs ! i # drop (Suc i) exs)) w
               = (None, w')"
    using assms(1) by simp
  then show ?thesis
    by (simp add: writeExamples_loop_append and_then_None)
qed

text \<open>
  A round that returns no error wrote, right after the state in which it called
  \<^verbatim>\<open>header()\<close>, the header that call returned.
\<close>

lemma writeExample_None_header:
  assumes "writeExample env outDir n fset regionTag ex w = (None, w')"
  defines "hs \<equiv> snd (OpenFile env (example_filename outDir n ex)
                        (snd (MkdirAll env (example_dir outDir n ex) w)))"
  shows "\<exists>rest evs. files w' = (files w)(example_filename outDir n ex \<mapsto> fst (header env hs) @ rest)
           \<and> trace w' = trace hs
                @ EvNow # EvWrite (example_filename outDir n ex) (fst (header env hs)) # evs"
proof (cases "format_Node env fset (example_node ex)")
  case (Inl e)
  with assms(1) show ?thesis by (simp add: writeExample_def Let_def)
next
  case (Inr buf)
  let ?tag = "regionTag @ ''_'' @ ex_Name ex"
  let ?f = "example_filename outDir n ex"
  from assms(1) Inr obtain w1 w2 where
    m: "MkdirAll env (example_dir outDir n ex) w = (None, w1)" and
    o: "OpenFile env ?f w1 = (None, w2)" and
    r: "(case header env w2 of (h, w) \<Rightarrow>
          and_then (WriteString env ?f h w) (\<lambda>w.
          and_then (WriteString env ?f (''// [START '' @ ?tag @ '']\<newline>\<newline>'') w) (\<lambda>w.
          and_then (WriteString env ?f (reformat buf) w) (\<lambda>w.
          WriteString env ?f (''// [END '' @ ?tag @ '']\<newline>'') w)))) = (None, w')"
    by (auto simp: writeExample_def Let_def and_then_None)
  have hs: "hs = w2"
    by (simp add: hs_def m o)
  from m o have f2: "files w2 = (files w)(?f \<mapsto> [])"
    by (auto simp: MkdirAll_None OpenFile_None)
  from r have "files w' = (files w2)(?f \<mapsto> fst (header env w2)
                  @ (''// [START '' @ ?tag @ '']\<newline>\<newline>'' @ reformat buf
                       @ ''// [END '' @ ?tag @ '']\<newline>''))
      \<and> trace w' = trace w2 @ EvNow # EvWrite ?f (fst (header env w2))
                  # [EvWrite ?f (''// [START '' @ ?tag @ '']\<newline>\<newline>''),
                     EvWrite ?f (reformat buf),
                     EvWrite ?f (''// [END '' @ ?tag @ '']\<newline>'')]"
    by (auto simp: and_then_None header_def log_event_def WriteString_None content_def f2)
  then show ?thesis
    unfolding hs f2 by (metis fun_upd_upd)
qed

lemma writeExamples_loop_trace:
  assumes "writeExamples_loop env outDir n fset regionTag exs w = (None, w')"
  shows "trace w' = trace w @ new_events w w'"
  using writeExamples_loop_jobs_done [OF assms] by (simp add: jobs_done_def)

lemma writeExamples_loop_files_other:
  assumes "writeExamples_loop env outDir n fset regionTag exs w = (None, w')"
      and "f \<notin> example_filename outDir n ` set exs"
  shows "files w' f = files w f"
  using writeExamples_loop_files [OF assms(1), of f] assms(2) by simp

lemma writeExamples_round_header:
  assumes run: "writeExamples env outDir exs fset regionTag w = (None, w')" and i: "i < length exs"
  defines "hs \<equiv> header_state env outDir exs fset regionTag w i"
      and "f \<equiv> example_filename outDir (length exs) (exs ! i)"
  shows "prefix (trace w) (trace hs)
       \<and> prefix (trace hs @ [EvNow, EvWrite f (fst (header env hs))]) (trace w')
       \<and> ((\<forall>j. i < j \<and> j < length exs \<longrightarrow> example_filename outDir (length exs) (exs ! j) \<noteq> f) \<longrightarrow>
            (\<exists>rest. files w' f = Some (fst (header env hs) @ rest)))"
proof -
  let ?n = "length exs"
  from run i have loop: "writeExamples_loop env outDir ?n fset regionTag exs w = (None, w')"
    by (cases exs) (simp_all add: writeExamples_def)
  from writeExamples_loop_split [OF loop i] obtain wi wi' where
    before: "writeExamples_loop env outDir ?n fset regionTag (take i exs) w = (None, wi)" and
    round: "writeExample env outDir ?n fset regionTag (exs ! i) wi = (None, wi')" and
    after: "writeExamples_loop env outDir ?n fset regionTag (drop (Suc i) exs) wi' = (None, w')"
    by blast
  have hs: "hs = snd (OpenFile env f (snd (MkdirAll env (example_dir outDir ?n (exs ! i)) wi)))"
    by (simp add: hs_def f_def header_state_def Let_def before)
  from writeExample_None_header [OF round] obtain rest evs where
    fl: "files wi' = (files wi)(f \<mapsto> fst (header env hs) @ rest)" and
    tr: "trace wi' = trace hs @ EvNow # EvWrite f (fst (header env hs)) # evs"
    unfolding hs f_def by blast
  have a: "prefix (trace hs @ [EvNow, EvWrite f (fst (header env hs))]) (trace w')"
    using writeExamples_loop_trace [OF after] tr by (simp add: prefix_def)
  have "prefix (trace wi) (trace hs)"
    unfolding hs by (simp add: MkdirAll_def OpenFile_def log_event_def prefix_def split: option.splits)
  moreover have "prefix (trace w) (trace wi)"
    using writeExamples_loop_trace [OF before] by (metis prefixI)
  ultimately have p: "prefix (trace w) (trace hs)"
    by (rule prefix_order.trans [rotated])
  have b: "\<exists>rest. files w' f = Some (fst (header env hs) @ rest)"
    if "\<forall>j. i < j \<and> j < length exs \<longrightarrow> example_filename outDir ?n (exs ! j) \<noteq> f"
  proof -
    have "f \<notin> example_filename outDir ?n ` set (drop (Suc i) exs)"
    proof
      assume "f \<in> example_filename outDir ?n ` set (drop (Suc i) exs)"
      then obtain k where "k < length (drop (Suc i) exs)"
        "example_filename outDir ?n (drop (Suc i) exs ! k) = f"
        by (auto simp: in_set_conv_nth)
      then have "Suc i + k < length exs" "example_filename outDir ?n (exs ! (Suc i + k)) = f"
        by simp_all
      with that show False by (metis add_Suc less_add_Suc1)
    qed
    from writeExamples_loop_files_other [OF after this] fl show ?thesis by simp
  qed
  from p a b show ?thesis by blast
qed


text \<open>
  C6 (as amended). When \<^verbatim>\<open>writeExamples\<close> returns no error, the header written to the
  file of every example is the Apache 2.0 license header that \<^verbatim>\<open>header()\<close> returns in
  the state in which this run calls it for that example, so it carries the year the clock
  shows at that moment: the write of that header follows that state directly in the
  trace, and the file begins with it at the end of the run (unless a later example of the
  run has rewritten the same file). The headers of all files of the run are the same
  whenever the clock shows the same year at each of these calls.
\<close>

theorem license_header_of_every_file:
  assumes "writeExamples env outDir exs fset regionTag w = (None, w')"
  shows "(\<forall>i < length exs.
            prefix (trace (header_state env outDir exs fset regionTag w i)
                      @ [EvNow,
                         EvWrite (example_filename outDir (length exs) (exs ! i))
                           (fst (header env (header_state env outDir exs fset regionTag w i)))])
                   (trace w'))
     \<and> (\<forall>i < length exs.
            (\<forall>j. i < j \<and> j < length exs \<longrightarrow>
                 example_filename outDir (length exs) (exs ! j)
                   \<noteq> example_filename outDir (length exs) (exs ! i)) \<longrightarrow>
            (\<exists>rest. files w' (example_filename outDir (length exs) (exs ! i))
                      = Some (fst (header env (header_state env outDir exs fset regionTag w i)) @ rest)))
     \<and> ((\<forall>i < length exs. time_Now_Year env (header_state env outDir exs fset regionTag w i) = year) \<longrightarrow>
          (\<forall>ex \<in> set exs. \<exists>rest.
             files w' (example_filename outDir (length exs) ex) = Some (licenseHeader year @ rest)))"
proof (intro conjI allI impI ballI)
  fix i assume "i < length exs"
  from writeExamples_round_header [OF assms this]
  show "prefix (trace (header_state env outDir exs fset regionTag w i)
                      @ [EvNow,
                         EvWrite (example_filename outDir (length exs) (exs ! i))
                           (fst (header env (header_state env outDir exs fset regionTag w i)))])
                   (trace w')"
    by blast
next
  fix i
  assume "i < length exs"
     and "\<forall>j. i < j \<and> j < length exs \<longrightarrow>
                 example_filename outDir (length exs) (exs ! j)
                   \<noteq> example_filename outDir (length exs) (exs ! i)"
  with writeExamples_round_header [OF assms]
  show "\<exists>rest. files w' (example_filename outDir (length exs) (exs ! i))
                      = Some (fst (header env (header_state env outDir exs fset regionTag w i)) @ rest)"
    by blast
next
  fix ex
  assume year: "\<forall>i < length exs. time_Now_Year env (header_state env outDir exs fset regionTag w i) = year"
     and "ex \<in> set exs"
  let ?f = "example_filename outDir (length exs) ex"
  let ?P = "\<lambda>j. j < length exs \<and> example_filename outDir (length exs) (exs ! j) = ?f"
  from \<open>ex \<in> set exs\<close> obtain k where "?P k"
    by (auto simp: in_set_conv_nth)
  moreover have "\<forall>j. ?P j \<longrightarrow> j \<le> length exs"
    by simp
  ultimately obtain x where x: "?P x" and greatest: "\<forall>j. ?P j \<longrightarrow> j \<le> x"
    using Nat.ex_has_greatest_nat [of ?P k "length exs"] by blast
  from greatest x have "\<forall>j. x < j \<and> j < length exs \<longrightarrow>
      example_filename outDir (length exs) (exs ! j) \<noteq> example_filename outDir (length exs) (exs ! x)"
    by (metis not_less)
  with writeExamples_round_header [OF assms, of x] x
  obtain rest where
    "files w' ?f = Some (fst (header env (header_state env outDir exs fset regionTag w x)) @ rest)"
    by auto
  with year x show "\<exists>rest. files w' ?f = Some (licenseHeader year @ rest)"
    by (auto simp: header_def)
qed

lemma new_year_run:
  "fst (writeExamples new_year_env ''out'' [demo_example, demo_example_second] () ''t'' demo_world) = None"
proof -
  have "fst (writeExamples_loop new_year_env ''out'' (length [demo_example, demo_example_second]) () ''t''
               [demo_example, demo_example_second] demo_world) = None"
  proof (rule writeExamples_loop_never_fails)
    show "os_MkdirAll new_year_env w dir = None" for w dir
      by (simp add: new_year_env_def demo_env_def)
    show "os_OpenFile new_year_env w filename = None" for w filename
      by (simp add: new_year_env_def demo_env_def)
    show "file_Write new_year_env w filename data = None" for w filename data
      by (simp add: new_year_env_def demo_env_def)
    show "\<forall>ex \<in> set [demo_example, demo_example_second].
            \<exists>buf. format_Node new_year_env () (example_node ex) = Inr buf"
      using demo_env_renders by (simp add: new_year_env_def)
  qed
  then show ?thesis by (simp add: writeExamples_def)
qed

lemma new_year_files:
  "example_filename ''out'' 2 demo_example = ''out/main.go''"
  "example_dir ''out'' 2 demo_example = ''out''"
  "example_filename ''out'' 2 demo_example_second = ''out/second/main.go''"
  "example_dir ''out'' 2 demo_example_second = ''out/second''"
  by (simp_all add: example_filename_def example_dir_def path_eval demo_example_def
        demo_example_second_def)

lemma new_year_header_states:
  "time_Now_Year new_year_env
     (header_state new_year_env ''out'' [demo_example, demo_example_second] () ''t'' demo_world 0) = 2021"
  "time_Now_Year new_year_env
     (header_state new_year_env ''out'' [demo_example, demo_example_second] () ''t'' demo_world 1) = 2022"
proof -
  have r: "reformat (ex_Code demo_example) = ''x := 1\<newline>''"
    by (rule demo_reformat)
  have c: "ex_Play demo_example = None"
    by (simp add: demo_example_def)
  show "time_Now_Year new_year_env
     (header_state new_year_env ''out'' [demo_example, demo_example_second] () ''t'' demo_world 0) = 2021"
    by (simp add: header_state_def Let_def MkdirAll_def OpenFile_def log_event_def
          new_year_env_def demo_env_def demo_world_def)
  show "time_Now_Year new_year_env
     (header_state new_year_env ''out'' [demo_example, demo_example_second] () ''t'' demo_world 1) = 2022"
    by (simp add: header_state_def Let_def writeExample_def and_then_def MkdirAll_def OpenFile_def
          WriteString_def header_def log_event_def new_year_env_def demo_env_def demo_world_def
          example_node_def c r new_year_files numeral_2_eq_2 [symmetric])
qed

theorem license_header_of_every_file_witness:
  "\<exists>w'. writeExamples new_year_env ''out'' [demo_example, demo_example_second] () ''t'' demo_world
          = (None, w')
     \<and> (\<exists>rest. files w' ''out/main.go'' = Some (licenseHeader 2021 @ rest))
     \<and> (\<exists>rest. files w' ''out/second/main.go'' = Some (licenseHeader 2022 @ rest))"
proof -
  let ?exs = "[demo_example, demo_example_second]"
  obtain w' where run:
    "writeExamples new_year_env ''out'' ?exs () ''t'' demo_world = (None, w')"
    using new_year_run by (metis prod.collapse)
  note inst = license_header_of_every_file [OF run, THEN conjunct2, THEN conjunct1, rule_format]
  have later0: "\<forall>j. 0 < j \<and> j < length ?exs \<longrightarrow>
      example_filename ''out'' (length ?exs) (?exs ! j) \<noteq> example_filename ''out'' (length ?exs) (?exs ! 0)"
  proof (intro allI impI)
    fix j assume "0 < j \<and> j < length ?exs"
    then have "j = 1" by simp
    then show "example_filename ''out'' (length ?exs) (?exs ! j)
                 \<noteq> example_filename ''out'' (length ?exs) (?exs ! 0)"
      using new_year_files by (simp add: numeral_2_eq_2 [symmetric])
  qed
  have later1: "\<forall>j. 1 < j \<and> j < length ?exs \<longrightarrow>
      example_filename ''out'' (length ?exs) (?exs ! j) \<noteq> example_filename ''out'' (length ?exs) (?exs ! 1)"
    by simp
  have len: "0 < length ?exs" "1 < length ?exs"
    by simp_all
  from inst [of 0, OF len(1) later0 [rule_format]]
  have a: "\<exists>rest. files w' ''out/main.go'' = Some (licenseHeader 2021 @ rest)"
    using new_year_files new_year_header_states(1)
    by (simp add: header_def numeral_2_eq_2 [symmetric])
  from inst [of 1, OF len(2) later1 [rule_format]]
  have b: "\<exists>rest. files w' ''out/second/main.go'' = Some (licenseHeader 2022 @ rest)"
    using new_year_files new_year_header_states(2)
    by (simp add: header_def numeral_2_eq_2 [symmetric])
  from run a b show ?thesis by blast
qed

lemma decimal_2021: "decimal 2021 = ''2021''"
  by code_simp

lemma decimal_2022: "decimal 2022 = ''2022''"
  by code_simp

text \<open>
  The claim as stated fails when the year changes during a run: \<^verbatim>\<open>header()\<close> reads
  the clock for every file, so two files of one run can carry different headers.
\<close>

theorem license_header_new_year_counterexample:
  "fst (writeExamples new_year_env ''out'' [demo_example, demo_example_second] () ''t'' demo_world) = None
   \<and> files (snd (writeExamples new_year_env ''out'' [demo_example, demo_example_second] () ''t'' demo_world))
        ''out/main.go''
      = Some (snippet (licenseHeader 2021) ''t_Client_Get'' ''x := 1\<newline>'')
   \<and> files (snd (writeExamples new_year_env ''out'' [demo_example, demo_example_second] () ''t'' demo_world))
        ''out/second/main.go''
      = Some (snippet (licenseHeader 2022) ''t_Client_Get_second'' ''x := 1\<newline>'')
   \<and> licenseHeader 2021 \<noteq> licenseHeader 2022"
proof -
  have f1: "example_filename ''out'' 2 demo_example = ''out/main.go''"
    by (simp add: example_filename_def example_dir_def path_eval demo_example_def)
  have d1: "example_dir ''out'' 2 demo_example = ''out''"
    by (simp add: example_filename_def example_dir_def path_eval demo_example_def)
  have f2: "example_filename ''out'' 2 demo_example_second = ''out/second/main.go''"
    by (simp add: example_filename_def example_dir_def path_eval demo_example_second_def)
  have d2: "example_dir ''out'' 2 demo_example_second = ''out/second''"
    by (simp add: example_filename_def example_dir_def path_eval demo_example_second_def)
  have r: "reformat (ex_Code demo_example) = ''x := 1\<newline>''"
    by (rule demo_reformat)
  have c: "ex_Code demo_example_second = ex_Code demo_example" "ex_Play demo_example_second = None"
     "ex_Play demo_example = None" "ex_Name demo_example = ''Client_Get''"
     "ex_Name demo_example_second = ''Client_Get_second''"
    by (simp_all add: demo_example_second_def demo_example_def)
  have "licenseHeader 2021 \<noteq> licenseHeader 2022"
    by (simp add: licenseHeader_def fmt_int_def decimal_2021 decimal_2022)
  moreover have "fst (writeExamples new_year_env ''out'' [demo_example, demo_example_second] () ''t'' demo_world) = None
   \<and> files (snd (writeExamples new_year_env ''out'' [demo_example, demo_example_second] () ''t'' demo_world))
        ''out/main.go''
      = Some (snippet (licenseHeader 2021) ''t_Client_Get'' ''x := 1\<newline>'')
   \<and> files (snd (writeExamples new_year_env ''out'' [demo_example, demo_example_second] () ''t'' demo_world))
        ''out/second/main.go''
      = Some (snippet (licenseHeader 2022) ''t_Client_Get_second'' ''x := 1\<newline>'')"
    by (simp add: Let_def writeExamples_def writeExample_def and_then_def MkdirAll_def OpenFile_def
          WriteString_def header_def new_year_env_def demo_env_def example_node_def
          f1 f2 d1 d2 r c log_event_def content_def demo_world_def snippet_def numeral_2_eq_2 [symmetric])
  ultimately show ?thesis by blast
qed

subsection \<open>Reformatting a braced block\<close>

lemma HasSuffix_iff_suffix: "strings_HasSuffix s suf \<longleftrightarrow> suffix suf s"
proof
  assume "strings_HasSuffix s suf"
  then have "s = take (length s - length suf) s @ suf"
    unfolding strings_HasSuffix_def by (metis append_take_drop_id)
  then show "suffix suf s" by (metis suffixI)
next
  assume "suffix suf s"
  then obtain zs where "s = zs @ suf" by (auto simp: suffix_def)
  then show "strings_HasSuffix s suf" by (simp add: strings_HasSuffix_def)
qed

lemma TrimPrefix_tab: "strings_TrimPrefix line [CHR 0x09] = drop_one_tab line"
  by (cases line) (simp_all add: strings_TrimPrefix_def strings_HasPrefix_def drop_one_tab_def)

lemma builder_foldl: "foldl (\<lambda>builder line. builder @ f line) acc ls = acc @ concat (map f ls)"
  by (induction ls arbitrary: acc) simp_all

lemma Split_nonempty: "strings_Split s sep \<noteq> []"
  by (induction s) (simp_all split: list.splits)

lemma Split_sep_Cons: "strings_Split (sep # s) sep = [] # strings_Split s sep"
  by simp

lemma Split_append:
  "strings_Split (a @ sep # b) sep = strings_Split a sep @ strings_Split b sep"
  by (induction a) (auto split: list.splits simp: Split_nonempty)

lemma Split_no_sep: "sep \<notin> set s \<Longrightarrow> strings_Split s sep = [s]"
  by (induction s) auto

lemma Split_lines:
  "\<forall>l \<in> set ls. sep \<notin> set l \<Longrightarrow> sep \<notin> set rest
     \<Longrightarrow> strings_Split (concat (map (\<lambda>l. l @ [sep]) ls) @ rest) sep = ls @ [rest]"
proof (induction ls)
  case Nil
  then show ?case by (simp add: Split_no_sep)
next
  case (Cons l ls)
  have "strings_Split (concat (map (\<lambda>l. l @ [sep]) (l # ls)) @ rest) sep
          = strings_Split (l @ sep # (concat (map (\<lambda>l. l @ [sep]) ls) @ rest)) sep"
    by simp
  also have "\<dots> = strings_Split l sep @ strings_Split (concat (map (\<lambda>l. l @ [sep]) ls) @ rest) sep"
    by (rule Split_append)
  finally show ?case using Cons by (simp add: Split_no_sep)
qed

text \<open>
  The slice \<^verbatim>\<open>lines[1 : len(lines)-1]\<close> is in range whenever the rendering begins with
  a brace and a newline: there are at least two lines.
\<close>

lemma reformat_slice_in_range:
  assumes "strings_HasPrefix s ''{\<newline>''"
  shows "1 \<le> length (strings_Split s (CHR ''\<newline>'')) - 1
         \<and> length (strings_Split s (CHR ''\<newline>'')) - 1 \<le> length (strings_Split s (CHR ''\<newline>''))"
proof -
  from assms obtain rest where "s = CHR ''{'' # CHR ''\<newline>'' # rest"
    by (auto simp: HasPrefix_iff_prefix prefix_def)
  then have "strings_Split s (CHR ''\<newline>'') = ''{'' # strings_Split rest (CHR ''\<newline>'')"
    by (simp split: list.splits add: Split_nonempty)
  then show ?thesis
    using Split_nonempty [of rest "CHR ''\<newline>''"] by (cases "strings_Split rest (CHR ''\<newline>'')") simp_all
qed

lemma reformat_eq_spec: "reformat s = reformat_spec s"
proof -
  have "take (length ls - 1 - 1) (drop 1 ls) = butlast (tl ls)" for ls :: "string list"
    by (simp add: butlast_conv_take drop_Suc)
  then show ?thesis
    by (simp add: reformat_def reformat_spec_def Let_def builder_foldl TrimPrefix_tab
          HasPrefix_iff_prefix HasSuffix_iff_suffix)
qed

text \<open>
  On a block given by its lines: the braces go, every line loses one leading tab and keeps
  its newline.
\<close>

lemma reformat_block:
  assumes "\<forall>line \<in> set ls. CHR ''\<newline>'' \<notin> set line"
  shows "reformat (''{\<newline>'' @ concat (map (\<lambda>line. line @ ''\<newline>'') ls) @ ''}'')
           = concat (map (\<lambda>line. drop_one_tab line @ ''\<newline>'') ls)"
proof -
  let ?s = "''{\<newline>'' @ concat (map (\<lambda>line. line @ ''\<newline>'') ls) @ ''}''"
  have s: "?s = concat (map (\<lambda>line. line @ ''\<newline>'') (''{'' # ls)) @ ''}''"
    by simp
  have split: "strings_Split ?s (CHR ''\<newline>'') = (''{'' # ls) @ [''}'']"
    unfolding s using assms by (intro Split_lines) auto
  have pre: "prefix ''{\<newline>'' ?s"
    by simp
  have suf: "suffix ''\<newline>}'' ?s"
  proof (cases ls rule: rev_cases)
    case Nil
    then show ?thesis by (simp add: suffix_def)
  next
    case (snoc ls' l)
    then have "?s = (''{\<newline>'' @ concat (map (\<lambda>line. line @ ''\<newline>'') ls') @ l) @ ''\<newline>}''"
      by simp
    then show ?thesis unfolding suffix_def by blast
  qed
  show ?thesis
    unfolding reformat_eq_spec reformat_spec_def split using pre suf by simp
qed

text \<open>
  C5. A rendering that begins with a brace and a newline and ends with a newline and a
  brace is reformatted before it is written: its first and last line are dropped, every
  line between loses exactly one leading tab if it has one and is ended by a newline; any
  other rendering is written as it is. What \<^verbatim>\<open>writeExamples\<close> writes to the file of an
  example is the rendering reformatted in this way.
\<close>

theorem reformat_braced_block:
  "reformat s = reformat_spec s
   \<and> (writeExamples env outDir exs fset regionTag w = (None, w') \<longrightarrow>
        (\<forall>ex \<in> set exs. \<exists>buf. format_Node env fset (example_node ex) = Inr buf
           \<and> EvWrite (example_filename outDir (length exs) ex) (reformat_spec buf)
                \<in> set (new_events w w')))"
proof -
  have "\<exists>buf. format_Node env fset (example_node ex) = Inr buf
           \<and> EvWrite (example_filename outDir (length exs) ex) (reformat_spec buf) \<in> set (new_events w w')"
    if run: "writeExamples env outDir exs fset regionTag w = (None, w')" and "ex \<in> set exs" for ex
  proof -
    from that have j: "(outDir, length exs, ex) \<in> set (symbol_jobs (outDir, exs))"
      by (simp add: symbol_jobs_def)
    from jobs_done_written [OF writeExamples_jobs_done [OF run] j] show ?thesis
      by (auto simp: job_written_def job_file_def job_example_def reformat_eq_spec)
  qed
  then show ?thesis using reformat_eq_spec by blast
qed

theorem reformat_braced_block_witness:
  "reformat_spec (''{\<newline>'' @ [CHR 0x09, CHR 0x09] @ ''if x {\<newline>'' @ ''y\<newline>'' @ [CHR 0x09] @ ''}\<newline>}'')
     = [CHR 0x09] @ ''if x {\<newline>y\<newline>}\<newline>''
   \<and> reformat_spec ''{ x }'' = ''{ x }''
   \<and> (\<exists>w'. writeExamples demo_env ''out/Client/Get'' [demo_example] () ''kms_generated_kms_apiv1'' demo_world
             = (None, w')
          \<and> EvWrite ''out/Client/Get/main.go'' ''x := 1\<newline>'' \<in> set (trace w'))"
proof -
  obtain w' where run:
    "writeExamples demo_env ''out/Client/Get'' [demo_example] () ''kms_generated_kms_apiv1'' demo_world = (None, w')"
    using demo_run by (metis prod.collapse)
  have fmt: "format_Node demo_env () (example_node demo_example) = Inr (ex_Code demo_example)"
    by (simp add: demo_env_def example_node_def demo_example_def)
  have ne: "new_events demo_world w' = trace w'"
    by (simp add: new_events_def demo_world_def)
  note inst = reformat_braced_block [where env = demo_env and outDir = "''out/Client/Get''"
      and exs = "[demo_example]" and fset = "()" and regionTag = "''kms_generated_kms_apiv1''"
      and w = demo_world and w' = w']
  from inst [THEN conjunct2] run
  have a: "EvWrite ''out/Client/Get/main.go'' ''x := 1\<newline>'' \<in> set (trace w')"
    by (simp add: fmt demo_filename ne inst [THEN conjunct1, symmetric] demo_reformat)
  have b: "reformat (''{\<newline>'' @ [CHR 0x09, CHR 0x09] @ ''if x {\<newline>'' @ ''y\<newline>'' @ [CHR 0x09] @ ''}\<newline>}'')
     = [CHR 0x09] @ ''if x {\<newline>y\<newline>}\<newline>''"
    by (simp add: reformat_def string_eval)
  have c: "reformat ''{ x }'' = ''{ x }''"
    by (simp add: reformat_def string_eval)
  from a b c run show ?thesis
    unfolding inst [THEN conjunct1, symmetric] by blast
qed

subsection \<open>Paths\<close>

lemma Split_pieces: "piece \<in> set (strings_Split s sep) \<Longrightarrow> sep \<notin> set piece"
  by (induction s arbitrary: piece) (auto split: if_splits list.splits)

lemma wf_stack_Nil: "wf_stack rooted []"
  by (simp add: wf_stack_def)

lemma clean_step_wf:
  assumes "wf_stack rooted stk" "CHR ''/'' \<notin> set el"
  shows "wf_stack rooted (clean_step rooted stk el)"
proof -
  from assms obtain n rest where
    stk: "stk = replicate n ''..'' @ rest" and r: "rooted \<longrightarrow> n = 0" and nr: "\<forall>el \<in> set rest. normal el"
    by (auto simp: wf_stack_def)
  consider (skip) "el = [] \<or> el = ''.''" | (up) "el = ''..''" | (push) "normal el"
    using assms(2) by (auto simp: normal_def)
  then show ?thesis
  proof cases
    case skip
    then show ?thesis using assms by (auto simp: clean_step_def)
  next
    case push
    then have "clean_step rooted stk el = replicate n ''..'' @ (rest @ [el])"
      by (auto simp: clean_step_def stk normal_def)
    with r nr push show ?thesis unfolding wf_stack_def by (metis Un_iff set_append empty_iff empty_set set_ConsD)
  next
    case up
    show ?thesis
    proof (cases rest rule: rev_cases)
      case Nil
      then have "clean_step rooted stk el = (if rooted then [] else replicate (Suc n) ''..'')"
        using up r by (cases n) (auto simp: clean_step_def stk replicate_append_same)
      then show ?thesis
        unfolding wf_stack_def by (metis append_Nil2 empty_iff empty_set replicate_0)
    next
      case (snoc rest' x)
      with nr have "x \<noteq> ''..''" by (auto simp: normal_def)
      with snoc up have "clean_step rooted stk el = replicate n ''..'' @ rest'"
        by (simp add: clean_step_def stk butlast_append)
      with r nr snoc show ?thesis unfolding wf_stack_def by auto
    qed
  qed
qed

lemma clean_foldl_wf:
  "wf_stack rooted stk \<Longrightarrow> \<forall>el \<in> set els. CHR ''/'' \<notin> set el
     \<Longrightarrow> wf_stack rooted (foldl (clean_step rooted) stk els)"
  by (induction els arbitrary: stk) (simp_all add: clean_step_wf)

lemma clean_stack_wf: "wf_stack rooted (clean_stack rooted path)"
  unfolding clean_stack_def by (rule clean_foldl_wf) (auto simp: wf_stack_Nil dest: Split_pieces)

lemma clean_foldl_normal:
  "\<forall>el \<in> set els. normal el \<Longrightarrow> foldl (clean_step rooted) stk els = stk @ els"
  by (induction els arbitrary: stk) (auto simp: clean_step_def normal_def)

lemma clean_foldl_dotdots:
  "foldl (clean_step False) (replicate m ''..'') (replicate n ''..'') = replicate (m + n) ''..''"
proof (induction n arbitrary: m)
  case 0
  then show ?case by simp
next
  case (Suc n)
  have "clean_step False (replicate m ''..'') ''..'' = replicate (Suc m) ''..''"
    by (cases m) (auto simp: clean_step_def replicate_append_same)
  with Suc [of "Suc m"] show ?case by simp
qed

lemma clean_foldl_wf_id:
  assumes "wf_stack rooted stk"
  shows "foldl (clean_step rooted) [] stk = stk"
proof -
  from assms obtain n rest where
    stk: "stk = replicate n ''..'' @ rest" and r: "rooted \<longrightarrow> n = 0" and nr: "\<forall>el \<in> set rest. normal el"
    by (auto simp: wf_stack_def)
  have "foldl (clean_step rooted) [] (replicate n ''..'') = replicate n ''..''"
  proof (cases rooted)
    case True
    with r show ?thesis by simp
  next
    case False
    with clean_foldl_dotdots [of 0 n] show ?thesis by simp
  qed
  with nr show ?thesis by (simp add: stk clean_foldl_normal)
qed

lemma wf_stack_elems:
  assumes "wf_stack rooted stk" "el \<in> set stk"
  shows "el \<noteq> [] \<and> CHR ''/'' \<notin> set el"
proof -
  from assms(1) obtain n rest where
    stk: "stk = replicate n ''..'' @ rest" and nr: "\<forall>el \<in> set rest. normal el"
    unfolding wf_stack_def by blast
  from assms(2) stk have "el = ''..'' \<or> el \<in> set rest"
    by auto
  then show ?thesis
  proof
    assume "el = ''..''"
    then show ?thesis by simp
  next
    assume "el \<in> set rest"
    with nr have "normal el" by blast
    then show ?thesis by (simp add: normal_def)
  qed
qed

lemma Join_Cons: "es \<noteq> [] \<Longrightarrow> strings_Join (e # es) sep = e @ sep @ strings_Join es sep"
  by (cases es) simp_all

lemma Split_Join:
  "stk \<noteq> [] \<Longrightarrow> \<forall>el \<in> set stk. sep \<notin> set el \<Longrightarrow> strings_Split (strings_Join stk [sep]) sep = stk"
proof (induction stk)
  case Nil
  then show ?case by simp
next
  case (Cons e es)
  show ?case
  proof (cases es)
    case Nil
    with Cons.prems show ?thesis by (simp add: Split_no_sep)
  next
    case (Cons e' es')
    then have "strings_Join (e # es) [sep] = e @ sep # strings_Join es [sep]"
      by simp
    then have "strings_Split (strings_Join (e # es) [sep]) sep
        = strings_Split e sep @ strings_Split (strings_Join es [sep]) sep"
      by (simp only: Split_append)
    with Cons.IH Cons.prems Cons show ?thesis by (simp add: Split_no_sep)
  qed
qed

lemma Join_Cons_if:
  "strings_Join (e # es) sep = e @ (if es = [] then [] else sep @ strings_Join es sep)"
  by (cases es) simp_all

lemma Join_nonempty:
  "stk \<noteq> [] \<Longrightarrow> \<forall>el \<in> set stk. el \<noteq> [] \<Longrightarrow> strings_Join stk sep \<noteq> []"
  by (cases stk) (simp_all add: Join_Cons_if)

lemma Join_hd:
  "stk \<noteq> [] \<Longrightarrow> \<forall>el \<in> set stk. el \<noteq> [] \<Longrightarrow> hd (strings_Join stk sep) = hd (hd stk)"
  by (cases stk) (simp_all add: Join_Cons_if)

lemma render_path_nonempty: "render_path rooted stk \<noteq> []"
  by (simp add: render_path_def Let_def)

lemma render_path_rooted:
  assumes "wf_stack rooted stk"
  shows "(hd (render_path rooted stk) = CHR ''/'') = rooted"
proof (cases rooted)
  case True
  then show ?thesis by (simp add: render_path_def)
next
  case False
  show ?thesis
  proof (cases stk)
    case Nil
    with False show ?thesis by (simp add: render_path_def)
  next
    case (Cons e es)
    with assms have ne: "\<forall>el \<in> set stk. el \<noteq> []" and "CHR ''/'' \<notin> set e" "e \<noteq> []"
      using wf_stack_elems by (blast, force, force)
    then have "hd e \<noteq> CHR ''/''" by (cases e) auto
    with False Cons ne Join_nonempty [of stk "''/''"] Join_hd [of stk "''/''"]
    show ?thesis by (simp add: render_path_def)
  qed
qed

lemma clean_stack_render:
  assumes "wf_stack rooted stk"
  shows "clean_stack rooted (render_path rooted stk) = stk"
proof (cases stk)
  case Nil
  then show ?thesis
    by (cases rooted) (simp_all add: render_path_def clean_stack_def clean_step_def)
next
  case (Cons e es)
  with assms have ne: "\<forall>el \<in> set stk. el \<noteq> []" and ns: "\<forall>el \<in> set stk. CHR ''/'' \<notin> set el"
    using wf_stack_elems by blast+
  from Cons have "stk \<noteq> []" by simp
  note sj = Split_Join [OF this ns] and jn = Join_nonempty [OF this ne, of "''/''"]
  have id: "foldl (clean_step rooted) [] stk = stk"
    by (rule clean_foldl_wf_id [OF assms])
  show ?thesis
  proof (cases rooted)
    case True
    have "clean_stack rooted (render_path rooted stk) = foldl (clean_step rooted) [] ([] # stk)"
      using True sj by (simp add: render_path_def clean_stack_def)
    also have "\<dots> = foldl (clean_step rooted) [] stk"
      by (simp add: clean_step_def)
    finally show ?thesis by (simp add: id)
  next
    case False
    with jn sj id show ?thesis
      by (simp add: render_path_def clean_stack_def)
  qed
qed

lemma clean_stack_append:
  "clean_stack rooted (p @ CHR ''/'' # x)
     = foldl (clean_step rooted) (clean_stack rooted p) (strings_Split x (CHR ''/''))"
  by (simp add: clean_stack_def Split_append)

text \<open>Cleaning a path extended by one element, from the stack of the path.\<close>

lemma Clean_append_element:
  assumes "p \<noteq> []" "CHR ''/'' \<notin> set x"
  shows "filepath_Clean (p @ ''/'' @ x)
           = render_path (hd p = CHR ''/'') (clean_step (hd p = CHR ''/'') (clean_stack (hd p = CHR ''/'') p) x)"
  using assms by (simp add: filepath_Clean_def Let_def clean_stack_append Split_no_sep)

lemma Clean_stack:
  "p \<noteq> [] \<Longrightarrow> filepath_Clean p = render_path (hd p = CHR ''/'') (clean_stack (hd p = CHR ''/'') p)"
  by (simp add: filepath_Clean_def Let_def)


lemma render_path_inj:
  assumes "render_path rooted b1 = render_path rooted b2"
      and "b1 \<noteq> []" "b2 \<noteq> []"
      and "\<forall>el \<in> set b1. el \<noteq> [] \<and> CHR ''/'' \<notin> set el"
      and "\<forall>el \<in> set b2. el \<noteq> [] \<and> CHR ''/'' \<notin> set el"
  shows "b1 = b2"
proof -
  have j1: "strings_Join b1 ''/'' \<noteq> []" and j2: "strings_Join b2 ''/'' \<noteq> []"
    using assms by (simp_all add: Join_nonempty)
  with assms(1) have "strings_Join b1 ''/'' = strings_Join b2 ''/''"
    by (cases rooted) (simp_all add: render_path_def)
  then have "strings_Split (strings_Join b1 ''/'') (CHR ''/'') = strings_Split (strings_Join b2 ''/'') (CHR ''/'')"
    by simp
  with assms show ?thesis by (simp add: Split_Join)
qed

text \<open>
  The file of an example whose suffix has neither a slash nor a dot: the cleaned elements
  of the symbol's directory, then the suffix unless it is empty, then \<^verbatim>\<open>main.go\<close>.
\<close>

lemma suffix_file_stack:
  assumes "CHR ''/'' \<notin> set sfx" "CHR ''.'' \<notin> set sfx"
  shows "filepath_Join [filepath_Join [symbolDir, sfx], ''main.go'']
           = render_path (symbolDir \<noteq> [] \<and> hd symbolDir = CHR ''/'')
               ((if symbolDir = [] then [] else clean_stack (hd symbolDir = CHR ''/'') symbolDir)
                  @ (if sfx = [] then [] else [sfx]) @ [''main.go''])"
proof -
  have nm: "normal ''main.go''"
    by (simp add: normal_def)
  have ns: "normal sfx" if "sfx \<noteq> []"
    using that assms by (auto simp: normal_def)
  have step: "clean_step r stk sfx = stk @ (if sfx = [] then [] else [sfx])" for r stk
    using ns by (auto simp: clean_step_def normal_def)
  have main: "clean_step r stk ''main.go'' = stk @ [''main.go'']" for r stk
    by (simp add: clean_step_def)
  have again: "filepath_Join [render_path r b, ''main.go''] = render_path r (b @ [''main.go''])"
    if "wf_stack r b" for r b
  proof -
    have "filepath_Join [render_path r b, ''main.go''] = filepath_Clean (render_path r b @ ''/'' @ ''main.go'')"
      using render_path_nonempty [of r b] by (simp add: filepath_Join_def)
    also have "\<dots> = render_path r (clean_step r (clean_stack r (render_path r b)) ''main.go'')"
      using Clean_append_element [of "render_path r b" "''main.go''"] render_path_nonempty [of r b]
        render_path_rooted [OF that] by simp
    finally show ?thesis by (simp add: clean_stack_render [OF that] main)
  qed
  show ?thesis
  proof (cases "symbolDir = []")
    case True
    show ?thesis
    proof (cases "sfx = []")
      case True
      with \<open>symbolDir = []\<close> show ?thesis
        by (simp add: path_eval)
    next
      case False
      then have hd: "hd sfx \<noteq> CHR ''/''"
        using assms(1) by (cases sfx) auto
      have "filepath_Join [symbolDir, sfx] = filepath_Clean sfx"
        using True False by (simp add: filepath_Join_def)
      also have "\<dots> = render_path False [sfx]"
        using False hd assms(1) step [of False "[]"]
        by (simp add: Clean_stack clean_stack_def Split_no_sep)
      finally have dir: "filepath_Join [symbolDir, sfx] = render_path False [sfx]" .
      have "wf_stack False [sfx]"
        unfolding wf_stack_def using ns [OF False]
        by (intro exI [of _ 0] exI [of _ "[sfx]"]) simp
      from again [OF this] dir True False show ?thesis by simp
    qed
  next
    case False
    let ?r = "hd symbolDir = CHR ''/''"
    let ?b = "clean_stack ?r symbolDir @ (if sfx = [] then [] else [sfx])"
    have "filepath_Join [symbolDir, sfx] = filepath_Clean (symbolDir @ ''/'' @ sfx)"
      using False by (simp add: filepath_Join_def)
    also have "\<dots> = render_path ?r (clean_step ?r (clean_stack ?r symbolDir) sfx)"
      using False assms(1) by (rule Clean_append_element)
    finally have dir: "filepath_Join [symbolDir, sfx] = render_path ?r ?b"
      by (simp add: step)
    have "wf_stack ?r (clean_step ?r (clean_stack ?r symbolDir) sfx)"
      using clean_stack_wf assms(1) by (rule clean_step_wf)
    then have "wf_stack ?r ?b" by (simp add: step)
    from again [OF this] dir False show ?thesis by simp
  qed
qed

lemma suffix_file_inj:
  assumes "CHR ''/'' \<notin> set s1" "CHR ''.'' \<notin> set s1" "CHR ''/'' \<notin> set s2" "CHR ''.'' \<notin> set s2"
      and eq: "filepath_Join [filepath_Join [symbolDir, s1], ''main.go'']
                 = filepath_Join [filepath_Join [symbolDir, s2], ''main.go'']"
  shows "s1 = s2"
proof -
  define r where "r = (symbolDir \<noteq> [] \<and> hd symbolDir = CHR ''/'')"
  define a where "a = (if symbolDir = [] then [] else clean_stack (hd symbolDir = CHR ''/'') symbolDir)"
  define t1 where "t1 = (if s1 = [] then [] else [s1])"
  define t2 where "t2 = (if s2 = [] then [] else [s2])"
  have a: "\<forall>el \<in> set a. el \<noteq> [] \<and> CHR ''/'' \<notin> set el"
    unfolding a_def using wf_stack_elems [OF clean_stack_wf] by simp
  have t: "\<forall>el \<in> set t1. el \<noteq> [] \<and> CHR ''/'' \<notin> set el"
          "\<forall>el \<in> set t2. el \<noteq> [] \<and> CHR ''/'' \<notin> set el"
    using assms(1,3) by (simp_all add: t1_def t2_def)
  have "render_path r (a @ t1 @ [''main.go'']) = render_path r (a @ t2 @ [''main.go''])"
    using eq unfolding suffix_file_stack [OF assms(1,2)] suffix_file_stack [OF assms(3,4)]
      r_def a_def t1_def t2_def .
  then have "a @ t1 @ [''main.go''] = a @ t2 @ [''main.go'']"
  proof (rule render_path_inj)
    show "a @ t1 @ [''main.go''] \<noteq> []" "a @ t2 @ [''main.go''] \<noteq> []" by simp_all
    show "\<forall>el \<in> set (a @ t1 @ [''main.go'']). el \<noteq> [] \<and> CHR ''/'' \<notin> set el"
      using a t(1) by auto
    show "\<forall>el \<in> set (a @ t2 @ [''main.go'']). el \<noteq> [] \<and> CHR ''/'' \<notin> set el"
      using a t(2) by auto
  qed
  then have "t1 = t2" by simp
  then show ?thesis
    unfolding t1_def t2_def by (cases "s1 = []"; cases "s2 = []") simp_all
qed


subsection \<open>The files of a symbol\<close>

lemma symbol_jobs_files: "map job_file (symbol_jobs symbol) = symbol_files symbol"
proof (cases symbol)
  case (Pair symbolDir exs)
  show ?thesis
  proof (cases "length exs = 1")
    case True
    then obtain ex where "exs = [ex]"
      by (cases exs) auto
    with Pair show ?thesis
      by (simp add: symbol_jobs_def symbol_files_def job_file_def example_filename_def example_dir_def)
  next
    case False
    then have "exs = [] \<or> 1 < length exs"
      by (cases exs) auto
    with Pair False show ?thesis
      by (auto simp: symbol_jobs_def symbol_files_def job_file_def example_filename_def example_dir_def)
  qed
qed

lemma symbol_files_distinct:
  assumes "distinct (map ex_Suffix exs)"
      and "\<forall>ex \<in> set exs. CHR ''/'' \<notin> set (ex_Suffix ex) \<and> CHR ''.'' \<notin> set (ex_Suffix ex)"
  shows "distinct (symbol_files (symbolDir, exs))"
proof (cases "length exs = 1")
  case True
  then show ?thesis by (simp add: symbol_files_def)
next
  case False
  let ?g = "\<lambda>sfx. filepath_Join [filepath_Join [symbolDir, sfx], ''main.go'']"
  have "inj_on ?g (set (map ex_Suffix exs))"
  proof (rule inj_onI)
    fix s1 s2
    assume s: "s1 \<in> set (map ex_Suffix exs)" "s2 \<in> set (map ex_Suffix exs)"
       and eq: "?g s1 = ?g s2"
    from s assms(2) have "CHR ''/'' \<notin> set s1" "CHR ''.'' \<notin> set s1"
        "CHR ''/'' \<notin> set s2" "CHR ''.'' \<notin> set s2"
      by auto
    then show "s1 = s2" using eq by (rule suffix_file_inj)
  qed
  then have "distinct (map ex_Suffix exs) \<and> inj_on ?g (set (map ex_Suffix exs))"
    using assms(1) by (rule conjI [rotated])
  then have "distinct (map ?g (map ex_Suffix exs))"
    by (rule distinct_map [THEN iffD2])
  moreover have "symbol_files (symbolDir, exs) = map ?g (map ex_Suffix exs)"
    using False by (simp add: symbol_files_def comp_def)
  ultimately show ?thesis by (simp only:)
qed

text \<open>
  C4. The files \<^verbatim>\<open>writeExamples\<close> opens for a symbol are, in order, \<^verbatim>\<open>main.go\<close> in the
  symbol's directory when the symbol has exactly one example, and \<^verbatim>\<open>main.go\<close> in the
  subdirectory named by the suffix of each example when it has more; \<^verbatim>\<open>processExamples\<close>
  does this for every function, type, constructor and method of the package. Examples
  of one symbol with different suffixes (free of slashes and dots, as parts of Go
  identifiers are) get different files.
\<close>

theorem example_files_by_suffix:
  "(writeExamples env symbolDir exs fset regionTag w = (None, w') \<longrightarrow>
      opened_files (new_events w w') = symbol_files (symbolDir, exs))
   \<and> (processExamples env keys pkg fset trimPrefix outDir apiShortnames w = (None, w')
        \<and> \<not> skip (pkg_ImportPath pkg) \<longrightarrow>
      opened_files (new_events w w')
        = concat (map symbol_files
            (symbols (filepath_Join [outDir, strings_TrimPrefix (pkg_ImportPath pkg) trimPrefix]) pkg)))
   \<and> (distinct (map ex_Suffix exs)
        \<and> (\<forall>ex \<in> set exs. CHR ''/'' \<notin> set (ex_Suffix ex) \<and> CHR ''.'' \<notin> set (ex_Suffix ex)) \<longrightarrow>
      distinct (symbol_files (symbolDir, exs)))"
proof (intro conjI impI)
  assume "writeExamples env symbolDir exs fset regionTag w = (None, w')"
  from jobs_done_opened [OF writeExamples_jobs_done [OF this]]
  show "opened_files (new_events w w') = symbol_files (symbolDir, exs)"
    by (simp add: symbol_jobs_files)
next
  assume run: "processExamples env keys pkg fset trimPrefix outDir apiShortnames w = (None, w')
        \<and> \<not> skip (pkg_ImportPath pkg)"
  from processExamples_jobs_done [OF run [THEN conjunct1] run [THEN conjunct2]]
  obtain shortname where
    "jobs_done env fset (region_tag shortname (strings_TrimPrefix (pkg_ImportPath pkg) trimPrefix))
          (concat (map symbol_jobs
             (symbols (filepath_Join [outDir, strings_TrimPrefix (pkg_ImportPath pkg) trimPrefix]) pkg)))
          w w'"
    by blast
  from jobs_done_opened [OF this]
  show "opened_files (new_events w w')
        = concat (map symbol_files
            (symbols (filepath_Join [outDir, strings_TrimPrefix (pkg_ImportPath pkg) trimPrefix]) pkg))"
    by (simp add: map_concat comp_def symbol_jobs_files)
next
  assume "distinct (map ex_Suffix exs)
        \<and> (\<forall>ex \<in> set exs. CHR ''/'' \<notin> set (ex_Suffix ex) \<and> CHR ''.'' \<notin> set (ex_Suffix ex))"
  then show "distinct (symbol_files (symbolDir, exs))"
    using symbol_files_distinct by blast
qed

lemma demo_run_two:
  "fst (writeExamples demo_env ''out'' [demo_example, demo_example_second] () ''t'' demo_world) = None"
proof -
  have "fst (writeExamples_loop demo_env ''out'' (length [demo_example, demo_example_second]) () ''t''
               [demo_example, demo_example_second] demo_world) = None"
  proof (rule writeExamples_loop_never_fails)
    show "os_MkdirAll demo_env w dir = None" for w dir
      by (simp add: demo_env_def)
    show "os_OpenFile demo_env w filename = None" for w filename
      by (simp add: demo_env_def)
    show "file_Write demo_env w filename data = None" for w filename data
      by (simp add: demo_env_def)
    show "\<forall>ex \<in> set [demo_example, demo_example_second].
            \<exists>buf. format_Node demo_env () (example_node ex) = Inr buf"
      using demo_env_renders by blast
  qed
  then show ?thesis by (simp add: writeExamples_def)
qed

theorem example_files_by_suffix_witness:
  "\<exists>w'. writeExamples demo_env ''out'' [demo_example, demo_example_second] () ''t'' demo_world = (None, w')
     \<and> opened_files (trace w') = [''out/main.go'', ''out/second/main.go'']
     \<and> distinct (symbol_files (''out'', [demo_example, demo_example_second]))"
proof -
  obtain w' where run:
    "writeExamples demo_env ''out'' [demo_example, demo_example_second] () ''t'' demo_world = (None, w')"
    using demo_run_two by (metis prod.collapse)
  note inst = example_files_by_suffix [where env = demo_env and symbolDir = "''out''"
      and exs = "[demo_example, demo_example_second]" and fset = "()" and regionTag = "''t''"
      and w = demo_world and w' = w']
  have files: "symbol_files (''out'', [demo_example, demo_example_second])
      = [''out/main.go'', ''out/second/main.go'']"
    by (simp add: symbol_files_def demo_example_def demo_example_second_def path_eval)
  have ne: "new_events demo_world w' = trace w'"
    by (simp add: new_events_def demo_world_def)
  from inst [THEN conjunct1] run
  have a: "opened_files (trace w') = [''out/main.go'', ''out/second/main.go'']"
    by (simp add: files ne)
  have "distinct (map ex_Suffix [demo_example, demo_example_second])
        \<and> (\<forall>ex \<in> set [demo_example, demo_example_second].
              CHR ''/'' \<notin> set (ex_Suffix ex) \<and> CHR ''.'' \<notin> set (ex_Suffix ex))"
    by (simp add: demo_example_def demo_example_second_def)
  with inst [THEN conjunct2, THEN conjunct2]
  have "distinct (symbol_files (''out'', [demo_example, demo_example_second]))"
    by blast
  with a run show ?thesis by blast
qed

subsection \<open>What each step adds to the trace\<close>

lemma appends_only_refl: "appends_only P w w"
  by (simp add: appends_only_def)

lemma appends_only_trans:
  "appends_only P w w1 \<Longrightarrow> appends_only P w1 w' \<Longrightarrow> appends_only P w w'"
  by (auto simp: appends_only_def)

lemma appends_only_mono:
  "appends_only P w w' \<Longrightarrow> (\<And>ev. P ev \<Longrightarrow> Q ev) \<Longrightarrow> appends_only Q w w'"
  unfolding appends_only_def by (metis (mono_tags, lifting) list_all_iff)

lemma and_then_appends:
  assumes "appends_only P w (snd r)" and "\<And>w1. appends_only P w1 (snd (k w1))"
  shows "appends_only P w (snd (and_then r k))"
proof (cases r)
  case (Pair e w1)
  show ?thesis
  proof (cases e)
    case None
    with Pair assms(1) assms(2) [of w1] show ?thesis
      by (auto simp: and_then_def intro: appends_only_trans)
  next
    case (Some err)
    with Pair assms(1) show ?thesis by (simp add: and_then_def)
  qed
qed

lemma MkdirAll_appends: "appends_only is_output w (snd (MkdirAll env dir w))"
  by (simp add: appends_only_def MkdirAll_def log_event_def split: option.splits)

lemma OpenFile_appends: "appends_only is_output w (snd (OpenFile env filename w))"
  by (simp add: appends_only_def OpenFile_def log_event_def split: option.splits)

lemma WriteString_appends: "appends_only is_output w (snd (WriteString env filename data w))"
  by (simp add: appends_only_def WriteString_def log_event_def split: option.splits prod.splits)

lemma header_appends: "appends_only is_output w (snd (header env w))"
  by (simp add: appends_only_def header_def log_event_def)

lemma writeExample_appends:
  "appends_only is_output w (snd (writeExample env outDir n fset regionTag ex w))"
proof (cases "format_Node env fset (example_node ex)")
  case (Inl e)
  then show ?thesis by (simp add: writeExample_def Let_def appends_only_refl)
next
  case (Inr buf)
  have now: "appends_only is_output w1 (snd (WriteString env f h (log_event EvNow w1)))" for w1 f h
  proof (rule appends_only_trans)
    show "appends_only is_output w1 (log_event EvNow w1)"
      by (simp add: appends_only_def log_event_def)
    show "appends_only is_output (log_event EvNow w1) (snd (WriteString env f h (log_event EvNow w1)))"
      by (rule WriteString_appends)
  qed
  show ?thesis
    apply (simp add: writeExample_def Let_def Inr header_def)
    apply (intro and_then_appends MkdirAll_appends OpenFile_appends now WriteString_appends)
    done
qed

lemma writeExamples_loop_appends:
  "appends_only is_output w (snd (writeExamples_loop env outDir n fset regionTag exs w))"
  by (induction exs arbitrary: w)
     (auto simp: appends_only_refl intro: and_then_appends writeExample_appends)

lemma writeExamples_appends:
  "appends_only is_output w (snd (writeExamples env outDir exs fset regionTag w))"
  by (simp add: writeExamples_def appends_only_refl writeExamples_loop_appends)

lemma funcs_loop_appends:
  "appends_only is_output w (snd (funcs_loop env outDir fset regionTag fs w))"
  by (induction fs arbitrary: w)
     (auto simp: appends_only_refl intro: and_then_appends writeExamples_appends)

lemma types_loop_appends:
  "appends_only is_output w (snd (types_loop env outDir fset regionTag ts w))"
  by (induction ts arbitrary: w)
     (auto simp: appends_only_refl Let_def intro!: and_then_appends writeExamples_appends funcs_loop_appends)

text \<open>\<^verbatim>\<open>processExamples\<close> adds nothing to the trace but the events of writing snippets.\<close>

lemma processExamples_appends:
  "appends_only is_output w
     (snd (processExamples env keys pkg fset trimPrefix outDir apiShortnames w))"
  by (auto simp: processExamples_def Let_def appends_only_refl split: sum.splits
           intro!: and_then_appends funcs_loop_appends types_loop_appends)


subsection \<open>The loops of Generate\<close>

lemma processed_append: "processed (xs @ ys) = processed xs @ processed ys"
  by (induction xs rule: processed.induct) simp_all

lemma loads_append: "loads (xs @ ys) = loads xs @ loads ys"
  by (induction xs rule: loads.induct) simp_all

lemma failures_append: "failures (xs @ ys) = failures xs @ failures ys"
  by (induction xs rule: failures.induct) simp_all

lemma output_events:
  "list_all is_output evs \<Longrightarrow> processed evs = [] \<and> loads evs = [] \<and> filter is_walk evs = []"
  by (induction evs rule: processed.induct) simp_all


text \<open>
  The loop over the packages of a directory calls \<^verbatim>\<open>processExamples\<close> once for every
  package, in order, and appends the error of every call that failed.
\<close>

lemma pkgs_loop_trace:
  assumes "pkgs_loop env trimPrefix outDir apiShortnames pis errs w = (errs', w')"
  shows "\<exists>evs. trace w' = trace w @ evs
     \<and> map fst (processed evs) = map (\<lambda>pinfo. pkg_ImportPath (fst pinfo)) pis
     \<and> errs' = errs @ map (\<lambda>err. ''failed to process examples: '' @ err) (failures (processed evs))
     \<and> loads evs = [] \<and> filter is_walk evs = []"
  using assms
proof (induction pis arbitrary: errs w)
  case Nil
  then show ?case by simp
next
  case (Cons pinfo rest)
  obtain doc fset where pinfo: "pinfo = (doc, fset)"
    by (cases pinfo)
  let ?call = "processExamples env (range_keys env w (pkg_ImportPath doc)) doc fset
                 trimPrefix outDir apiShortnames w"
  obtain r w1 where call: "?call = (r, w1)"
    by (cases ?call)
  from processExamples_appends [of w env "range_keys env w (pkg_ImportPath doc)" doc fset
      trimPrefix outDir apiShortnames] call
  obtain evs1 where evs1: "trace w1 = trace w @ evs1" "list_all is_output evs1"
    by (auto simp: appends_only_def)
  note out = output_events [OF evs1(2)]
  let ?w2 = "log_event (EvProcess (pkg_ImportPath doc) r) w1"
  let ?errs2 = "errs @ map (\<lambda>err. ''failed to process examples: '' @ err) (failures [(pkg_ImportPath doc, r)])"
  from Cons.prems pinfo call have rest:
    "pkgs_loop env trimPrefix outDir apiShortnames rest ?errs2 ?w2 = (errs', w')"
    by (cases r) simp_all
  from Cons.IH [OF rest] obtain evs2 where evs2:
    "trace w' = trace ?w2 @ evs2"
    "map fst (processed evs2) = map (\<lambda>pinfo. pkg_ImportPath (fst pinfo)) rest"
    "errs' = ?errs2 @ map (\<lambda>err. ''failed to process examples: '' @ err) (failures (processed evs2))"
    "loads evs2 = []" "filter is_walk evs2 = []"
    by blast
  let ?evs = "evs1 @ EvProcess (pkg_ImportPath doc) r # evs2"
  have "trace w' = trace w @ ?evs"
    using evs1(1) evs2(1) by (simp add: log_event_def)
  moreover have "map fst (processed ?evs) = map (\<lambda>pinfo. pkg_ImportPath (fst pinfo)) (pinfo # rest)"
    using out evs2(2) pinfo by (simp add: processed_append)
  moreover have "errs' = errs @ map (\<lambda>err. ''failed to process examples: '' @ err) (failures (processed ?evs))"
    using out evs2(3) by (cases r) (simp_all add: processed_append)
  moreover have "loads ?evs = []" "filter is_walk ?evs = []"
    using out evs2(4,5) by (simp_all add: loads_append)
  ultimately show ?case by blast
qed

text \<open>
  The loop over the directories loads them in order until a load fails; the packages of
  every directory loaded are processed once, in order; the loop ends with the errors of
  all failed calls when every load succeeded, and with the load error otherwise.
\<close>

lemma dirs_loop_trace:
  assumes "dirs_loop env trimPrefix outDir apiShortnames dirs errs w = (r, w')"
  shows "\<exists>evs. trace w' = trace w @ evs
     \<and> filter is_walk evs = []
     \<and> loads evs = takeWhile (load_ok env) dirs @ take 1 (dropWhile (load_ok env) dirs)
     \<and> map fst (processed evs) = concat (map (loaded_packages env) (takeWhile (load_ok env) dirs))
     \<and> (case r of
           Inr errs' \<Rightarrow> list_all (load_ok env) dirs
             \<and> errs' = errs @ map (\<lambda>err. ''failed to process examples: '' @ err) (failures (processed evs))
         | Inl e \<Rightarrow> \<exists>dir err. dir \<in> set dirs \<and> pkgload_Load env dir = Inl err
             \<and> e = ''failed to load packages: '' @ err)"
  using assms
proof (induction dirs arbitrary: errs w)
  case Nil
  then show ?case by auto
next
  case (Cons dir rest)
  show ?case
  proof (cases "pkgload_Load env dir")
    case (Inl err)
    with Cons.prems have "r = Inl (''failed to load packages: '' @ err)" "w' = log_event (EvLoad dir) w"
      by auto
    with Inl show ?thesis
      by (intro exI [of _ "[EvLoad dir]"]) (auto simp: log_event_def load_ok_def)
  next
    case (Inr pis)
    let ?w0 = "log_event (EvLoad dir) w"
    obtain errs1 w1 where pk: "pkgs_loop env trimPrefix outDir apiShortnames pis errs ?w0 = (errs1, w1)"
      by (cases "pkgs_loop env trimPrefix outDir apiShortnames pis errs ?w0")
    from pkgs_loop_trace [OF pk] obtain evs1 where evs1:
      "trace w1 = trace ?w0 @ evs1"
      "map fst (processed evs1) = map (\<lambda>pinfo. pkg_ImportPath (fst pinfo)) pis"
      "errs1 = errs @ map (\<lambda>err. ''failed to process examples: '' @ err) (failures (processed evs1))"
      "loads evs1 = []" "filter is_walk evs1 = []"
      by blast
    from Cons.prems Inr pk have rest: "dirs_loop env trimPrefix outDir apiShortnames rest errs1 w1 = (r, w')"
      by simp
    from Cons.IH [OF rest] obtain evs2 where evs2:
      "trace w' = trace w1 @ evs2"
      "filter is_walk evs2 = []"
      "loads evs2 = takeWhile (load_ok env) rest @ take 1 (dropWhile (load_ok env) rest)"
      "map fst (processed evs2) = concat (map (loaded_packages env) (takeWhile (load_ok env) rest))"
      "case r of
           Inr errs' \<Rightarrow> list_all (load_ok env) rest
             \<and> errs' = errs1 @ map (\<lambda>err. ''failed to process examples: '' @ err) (failures (processed evs2))
         | Inl e \<Rightarrow> \<exists>dir err. dir \<in> set rest \<and> pkgload_Load env dir = Inl err
             \<and> e = ''failed to load packages: '' @ err"
      by blast
    have ok: "load_ok env dir" and lp: "loaded_packages env dir = map (\<lambda>pinfo. pkg_ImportPath (fst pinfo)) pis"
      using Inr by (simp_all add: load_ok_def loaded_packages_def)
    let ?evs = "EvLoad dir # evs1 @ evs2"
    have "trace w' = trace w @ ?evs"
      using evs1(1) evs2(1) by (simp add: log_event_def)
    moreover have "filter is_walk ?evs = []"
      using evs1(5) evs2(2) by simp
    moreover have "loads ?evs = takeWhile (load_ok env) (dir # rest) @ take 1 (dropWhile (load_ok env) (dir # rest))"
      using evs1(4) evs2(3) ok by (simp add: loads_append)
    moreover have "map fst (processed ?evs)
        = concat (map (loaded_packages env) (takeWhile (load_ok env) (dir # rest)))"
      using evs1(2) evs2(4) ok lp by (simp add: processed_append)
    moreover have "case r of
           Inr errs' \<Rightarrow> list_all (load_ok env) (dir # rest)
             \<and> errs' = errs @ map (\<lambda>err. ''failed to process examples: '' @ err) (failures (processed ?evs))
         | Inl e \<Rightarrow> \<exists>d err. d \<in> set (dir # rest) \<and> pkgload_Load env d = Inl err
             \<and> e = ''failed to load packages: '' @ err"
      using evs2(5) evs1(3) ok
      by (cases r) (auto simp: processed_append failures_append)
    ultimately show ?thesis by blast
  qed
qed

text \<open>The walk adds nothing to the trace but the calls of its callback.\<close>

lemma walk_fn_appends: "appends_only is_walk (snd st) (snd (snd (walk_fn path name err st)))"
  by (cases st) (simp add: walk_fn_def Let_def appends_only_def log_event_def)

lemma walkDir_appends:
  "appends_only is_walk (snd st) (snd (snd (walkDir path d st)))"
  "appends_only is_walk (snd st) (snd (snd (walkDir_entries path ds st)))"
proof (induction path d st and path ds st rule: walkDir_walkDir_entries.induct)
  case (1 path name st)
  then show ?case by (simp add: walk_fn_appends)
next
  case (2 path name entries st)
  obtain r st1 where f: "walk_fn path name False st = (r, st1)"
    by (cases "walk_fn path name False st")
  with walk_fn_appends [of st path name False] have a: "appends_only is_walk (snd st) (snd st1)"
    by simp
  show ?case
  proof (cases r)
    case WalkNil
    with 2 [of WalkNil st1] f have "appends_only is_walk (snd st1) (snd (snd (walkDir_entries path entries st1)))"
      by simp
    with a f WalkNil show ?thesis by (auto intro: appends_only_trans)
  qed (use a f in simp_all)
next
  case (3 path name st)
  obtain r st1 where f: "walk_fn path name False st = (r, st1)"
    by (cases "walk_fn path name False st")
  with walk_fn_appends [of st path name False] have a: "appends_only is_walk (snd st) (snd st1)"
    by simp
  obtain r2 st2 where g: "walk_fn path name True st1 = (r2, st2)"
    by (cases "walk_fn path name True st1")
  with walk_fn_appends [of st1 path name True] have b: "appends_only is_walk (snd st1) (snd st2)"
    by simp
  from a b have c: "appends_only is_walk (snd st) (snd st2)"
    by (rule appends_only_trans)
  show ?case
    using a c f g by (cases r; cases r2) simp_all
next
  case (4 path st)
  then show ?case by (simp add: appends_only_refl)
next
  case (5 path d1 rest st)
  obtain r st1 where f: "walkDir (filepath_Join [path, node_Name d1]) d1 st = (r, st1)"
    by (cases "walkDir (filepath_Join [path, node_Name d1]) d1 st")
  with 5(1) have a: "appends_only is_walk (snd st) (snd st1)"
    by simp
  show ?case
  proof (cases r)
    case WalkNil
    with 5(2) [of WalkNil st1] f have "appends_only is_walk (snd st1) (snd (snd (walkDir_entries path rest st1)))"
      by simp
    with a f WalkNil show ?thesis by (auto intro: appends_only_trans)
  qed (use a f in simp_all)
qed

lemma WalkDir_appends: "appends_only is_walk (snd st) (snd (snd (WalkDir lstat root st)))"
proof -
  let ?inner = "case lstat of None \<Rightarrow> walk_fn root [] True st | Some info \<Rightarrow> walkDir root info st"
  have "appends_only is_walk (snd st) (snd (snd ?inner))"
    by (cases lstat) (simp_all add: walk_fn_appends walkDir_appends)
  moreover obtain r st1 where "?inner = (r, st1)"
    by (cases ?inner)
  ultimately show ?thesis
    by (cases r) (simp_all add: WalkDir_def)
qed

subsection \<open>Generate\<close>

text \<open>
  The shape of every run of \<^verbatim>\<open>Generate\<close>: the calls of the walk's callback come
  first; after them the collected directories are loaded in order until a load fails,
  the packages of every loaded directory are processed once, and the run ends as the
  loads and the results of the calls decide.
\<close>

lemma Generate_trace:
  assumes "Generate env rootDir outDir apiShortnames w = (out, w')"
  defines "dirs \<equiv> collected_dirs env rootDir w"
  shows "\<exists>walk rest. trace w' = trace w @ walk @ rest
     \<and> walk \<noteq> [] \<and> list_all is_walk walk \<and> filter is_walk rest = []
     \<and> loads rest = takeWhile (load_ok env) dirs @ take 1 (dropWhile (load_ok env) dirs)
     \<and> map fst (processed rest) = concat (map (loaded_packages env) (takeWhile (load_ok env) dirs))
     \<and> (if list_all (load_ok env) dirs
         then (if failures (processed rest) = [] then \<exists>r. out = Returned r
               else out = Fatal (map (\<lambda>err. ''failed to process examples: '' @ err)
                                 (failures (processed rest))))
         else \<exists>dir err. dir \<in> set dirs \<and> pkgload_Load env dir = Inl err
                \<and> out = Returned (Some (''failed to load packages: '' @ err)))"
proof -
  define root where "root = (if rootDir = [] then ''.'' else rootDir)"
  define out_dir where "out_dir = (if outDir = [] then ''internal/generated/snippets'' else outDir)"
  obtain walked found w1 where wd: "WalkDir (os_Lstat env w root) root ([], w) = (walked, found, w1)"
    by (cases "WalkDir (os_Lstat env w root) root ([], w)") auto
  have dirs: "dirs = found"
    by (simp add: dirs_def collected_dirs_def Let_def root_def [symmetric] wd)
  from WalkDir_appends [of "([], w)" "os_Lstat env w root" root] wd
  obtain walk where walk: "trace w1 = trace w @ walk" "list_all is_walk walk"
    by (auto simp: appends_only_def)
  have "walk \<noteq> []"
  proof -
    have first: "\<exists>evs. trace (snd (snd (walk_fn p n e (fnd, w0)))) = trace w0 @ EvWalk p # evs" for p n e fnd w0
      by (simp add: walk_fn_def Let_def log_event_def)
    have grows: "\<exists>evs. trace (snd (snd (walkDir_entries p ds st))) = trace (snd st) @ evs" for p ds st
      using walkDir_appends(2) [of st p ds] by (auto simp: appends_only_def)
    have "\<exists>evs. trace (snd (snd (walkDir p d (fnd, w0)))) = trace w0 @ EvWalk p # evs" for p d fnd w0
    proof (cases d)
      case (File name)
      then show ?thesis using first by simp
    next
      case (Dir name entries)
      obtain r st1 where f: "walk_fn p name False (fnd, w0) = (r, st1)"
        by (cases "walk_fn p name False (fnd, w0)")
      with first [of p name False fnd w0] obtain evs where e: "trace (snd st1) = trace w0 @ EvWalk p # evs"
        by auto
      show ?thesis
        using Dir f e grows [of p entries st1] by (cases r) auto
    next
      case (Unreadable name)
      obtain r st1 where f: "walk_fn p name False (fnd, w0) = (r, st1)"
        by (cases "walk_fn p name False (fnd, w0)")
      with first [of p name False fnd w0] obtain evs where e: "trace (snd st1) = trace w0 @ EvWalk p # evs"
        by auto
      obtain r2 st2 where g: "walk_fn p name True st1 = (r2, st2)"
        by (cases "walk_fn p name True st1")
      with walk_fn_appends [of st1 p name True] obtain evs2 where "trace (snd st2) = trace (snd st1) @ evs2"
        by (auto simp: appends_only_def)
      with Unreadable f g e show ?thesis by (cases r; cases r2) auto
    qed
    with first have "\<exists>evs. trace (snd (snd (case os_Lstat env w root of
              None \<Rightarrow> walk_fn root [] True ([], w)
            | Some info \<Rightarrow> walkDir root info ([], w)))) = trace w @ EvWalk root # evs"
      by (cases "os_Lstat env w root") auto
    then have "\<exists>evs. trace w1 = trace w @ EvWalk root # evs"
      using wd unfolding WalkDir_def by (auto split: prod.splits walk_result.splits)
    with walk(1) show ?thesis by auto
  qed
  obtain r w2 where dl: "dirs_loop env ''cloud.google.com/go'' out_dir apiShortnames found [] w1 = (r, w2)"
    by (cases "dirs_loop env ''cloud.google.com/go'' out_dir apiShortnames found [] w1")
  from dirs_loop_trace [OF dl] obtain evs where evs:
    "trace w2 = trace w1 @ evs"
    "filter is_walk evs = []"
    "loads evs = takeWhile (load_ok env) found @ take 1 (dropWhile (load_ok env) found)"
    "map fst (processed evs) = concat (map (loaded_packages env) (takeWhile (load_ok env) found))"
    "case r of
           Inr errs' \<Rightarrow> list_all (load_ok env) found
             \<and> errs' = [] @ map (\<lambda>err. ''failed to process examples: '' @ err) (failures (processed evs))
         | Inl e \<Rightarrow> \<exists>dir err. dir \<in> set found \<and> pkgload_Load env dir = Inl err
             \<and> e = ''failed to load packages: '' @ err"
    by blast
  from assms(1) wd dl have gen:
    "(out, w') = (case r of
        Inl err \<Rightarrow> (Returned (Some err), w2)
      | Inr errs \<Rightarrow>
          if length errs > 0 then (Fatal errs, w2)
          else if length found > 0 then
            (case goimports_Run env w2 out_dir of
               (Some err, files') \<Rightarrow>
                 (Returned (Some (''failed to run goimports: '' @ err)),
                  log_event (EvGoimports out_dir) (w2\<lparr>files := files'\<rparr>))
             | (None, files') \<Rightarrow>
                 (Returned None, log_event (EvGoimports out_dir) (w2\<lparr>files := files'\<rparr>)))
          else (Returned None, w2))"
    by (simp add: Generate_def Let_def root_def [symmetric] out_dir_def [symmetric])
  show ?thesis
  proof (cases r)
    case (Inl e)
    with evs(5) obtain dir err where bad: "dir \<in> set found" "pkgload_Load env dir = Inl err"
      "e = ''failed to load packages: '' @ err"
      by auto
    from bad(2) have "\<not> load_ok env dir"
      by (simp add: load_ok_def)
    with bad(1) have "\<not> list_all (load_ok env) found"
      unfolding list_all_iff by blast
    moreover from gen Inl have "out = Returned (Some e)" "w' = w2"
      by simp_all
    ultimately show ?thesis
      using walk \<open>walk \<noteq> []\<close> evs(1-4) bad unfolding dirs
      by (intro exI [of _ walk] exI [of _ evs]) auto
  next
    case (Inr errs)
    with evs(5) have ok: "list_all (load_ok env) found"
      and errs: "errs = map (\<lambda>err. ''failed to process examples: '' @ err) (failures (processed evs))"
      by simp_all
    show ?thesis
    proof (cases "failures (processed evs) = []")
      case False
      with gen Inr errs have "out = Fatal errs" "w' = w2"
        by simp_all
      with False errs ok walk \<open>walk \<noteq> []\<close> evs(1-4) show ?thesis
        unfolding dirs by (intro exI [of _ walk] exI [of _ evs]) simp
    next
      case True
      with errs have e0: "errs = []" by simp
      show ?thesis
      proof (cases "length found > 0")
        case False
        with gen Inr e0 have "out = Returned None" "w' = w2"
          by simp_all
        with True ok walk \<open>walk \<noteq> []\<close> evs(1-4) show ?thesis
          unfolding dirs by (intro exI [of _ walk] exI [of _ evs]) simp
      next
        case nonempty: True
        obtain ge files' where gi: "goimports_Run env w2 out_dir = (ge, files')"
          by (cases "goimports_Run env w2 out_dir")
        with gen Inr e0 nonempty have "(\<exists>r. out = Returned r)"
          "trace w' = trace w2 @ [EvGoimports out_dir]"
          by (cases ge; simp add: log_event_def)+
        with True ok walk \<open>walk \<noteq> []\<close> evs(1-4) show ?thesis
          unfolding dirs
          by (intro exI [of _ walk] exI [of _ "evs @ [EvGoimports out_dir]"])
             (simp add: loads_append processed_append)
      qed
    qed
  qed
qed





lemma modules_loads:
  "list_all (load_ok modules_env) [''a'', ''b'', ''c'']"
  "concat (map (loaded_packages modules_env) [''a'', ''b'', ''c'']) = [''p1'', ''p3'']"
  by (simp_all add: load_ok_def loaded_packages_def modules_env_def named_package_def)




subsection \<open>The walk\<close>

text \<open>
  On a tree whose directories can all be read and are not named \<^verbatim>\<open>go.mod\<close>, the walk
  collects the directory of every \<^verbatim>\<open>go.mod\<close> file in the part of the tree it goes
  through; a file named \<^verbatim>\<open>internal\<close> makes \<^verbatim>\<open>walkDir\<close> return \<^verbatim>\<open>SkipDir\<close>.
\<close>

lemma prune_Name: "node_Name (prune d) = node_Name d"
  by (cases d) simp_all

lemma walkDir_regular:
  "regular d \<Longrightarrow>
     fst (walkDir path d st) = (if d = File ''internal'' then WalkSkipDir else WalkNil)
     \<and> fst (snd (walkDir path d st)) = fst st @ gomod_dirs path (prune d)"
  "regular_entries ds \<Longrightarrow>
     fst (walkDir_entries path ds st) = WalkNil
     \<and> fst (snd (walkDir_entries path ds st)) = fst st @ gomod_dirs_entries path (prune_entries ds)"
proof (induction path d st and path ds st rule: walkDir_walkDir_entries.induct)
  case (1 path name st)
  then show ?case by (cases st) (simp add: walk_fn_def Let_def)
next
  case (2 path name entries st)
  obtain found w where st: "st = (found, w)"
    by (cases st)
  show ?case
  proof (cases "name = ''internal''")
    case True
    then show ?thesis by (simp add: st walk_fn_def Let_def)
  next
    case False
    with 2(2) have f: "walk_fn path name False st = (WalkNil, found, log_event (EvWalk path) w)"
      by (simp add: st walk_fn_def Let_def)
    from 2(1) [OF f [symmetric] refl] 2(2) f False show ?thesis
      by (simp add: st)
  qed
next
  case (3 path name st)
  then show ?case by simp
next
  case (4 path st)
  then show ?case by simp
next
  case (5 path d1 rest st)
  let ?p1 = "filepath_Join [path, node_Name d1]"
  from 5(3) have t: "regular d1" "regular_entries rest"
    by simp_all
  note first = 5(1) [OF t(1)]
  show ?case
  proof (cases "d1 = File ''internal''")
    case True
    with first obtain st1 where f: "walkDir ?p1 d1 st = (WalkSkipDir, st1)" "fst st1 = fst st"
      by (cases "walkDir ?p1 d1 st") auto
    with True show ?thesis by simp
  next
    case False
    with first obtain st1 where f: "walkDir ?p1 d1 st = (WalkNil, st1)"
      and s1: "fst st1 = fst st @ gomod_dirs ?p1 (prune d1)"
      by (cases "walkDir ?p1 d1 st") auto
    from 5(2) [OF f [symmetric] refl t(2)] f s1 False show ?thesis
      by (simp add: prune_Name)
  qed
qed

lemma collected_dirs_regular:
  assumes "os_Lstat env w (if rootDir = [] then ''.'' else rootDir) = Some tree" "regular tree"
  shows "collected_dirs env rootDir w = gomod_dirs (if rootDir = [] then ''.'' else rootDir) (prune tree)"
proof -
  let ?root = "if rootDir = [] then ''.'' else rootDir"
  obtain r st1 where "walkDir ?root tree ([], w) = (r, st1)" "fst st1 = gomod_dirs ?root (prune tree)"
    using walkDir_regular(1) [OF assms(2), of ?root "([], w)"]
    by (cases "walkDir ?root tree ([], w)") auto
  with assms(1) show ?thesis
    by (cases r) (simp_all add: collected_dirs_def Let_def WalkDir_def)
qed

lemma tidy_prune:
  "tidy d \<Longrightarrow> prune d = d \<and> regular d"
  "tidy_entries ds \<Longrightarrow> prune_entries ds = ds \<and> regular_entries ds"
  by (induction d and ds rule: tidy_tidy_entries.induct) auto


lemma collected_dirs_tidy:
  assumes "os_Lstat env w (if rootDir = [] then ''.'' else rootDir) = Some tree" "tidy tree"
  shows "collected_dirs env rootDir w = gomod_dirs (if rootDir = [] then ''.'' else rootDir) tree"
  using collected_dirs_regular [OF assms(1)] tidy_prune(1) [OF assms(2)] by simp

text \<open>
  C8 (as amended). \<^verbatim>\<open>Generate\<close> is a single pass: the calls of the walk's callback
  come first in the trace and nothing is walked after them; only then are the collected
  directories loaded, in order and until a load fails, their packages processed and the
  snippets written. In a tree whose directories can all be read and are not named
  \<^verbatim>\<open>go.mod\<close>, the walk collects the directory of every \<^verbatim>\<open>go.mod\<close> file in the part
  of the tree it goes through, which leaves out what lies in a directory named
  \<^verbatim>\<open>internal\<close> and what follows a file named \<^verbatim>\<open>internal\<close> in its directory; these are
  all directories that contain a \<^verbatim>\<open>go.mod\<close> file when moreover no entry is named
  \<^verbatim>\<open>internal\<close>.
\<close>

theorem walk_before_processing:
  assumes "Generate env rootDir outDir apiShortnames w = (out, w')"
  shows "\<exists>walk rest. trace w' = trace w @ walk @ rest
     \<and> walk \<noteq> [] \<and> list_all is_walk walk \<and> filter is_walk rest = []
     \<and> loads rest = takeWhile (load_ok env) (collected_dirs env rootDir w)
                       @ take 1 (dropWhile (load_ok env) (collected_dirs env rootDir w))
     \<and> map fst (processed rest)
         = concat (map (loaded_packages env) (takeWhile (load_ok env) (collected_dirs env rootDir w)))
     \<and> (\<forall>tree. os_Lstat env w (if rootDir = [] then ''.'' else rootDir) = Some tree \<and> regular tree \<longrightarrow>
           collected_dirs env rootDir w
             = gomod_dirs (if rootDir = [] then ''.'' else rootDir) (prune tree))
     \<and> (\<forall>tree. os_Lstat env w (if rootDir = [] then ''.'' else rootDir) = Some tree \<and> tidy tree \<longrightarrow>
           collected_dirs env rootDir w = gomod_dirs (if rootDir = [] then ''.'' else rootDir) tree)"
proof -
  from Generate_trace [OF assms] obtain walk rest where
    "trace w' = trace w @ walk @ rest" "walk \<noteq> []" "list_all is_walk walk" "filter is_walk rest = []"
    "loads rest = takeWhile (load_ok env) (collected_dirs env rootDir w)
                       @ take 1 (dropWhile (load_ok env) (collected_dirs env rootDir w))"
    "map fst (processed rest)
         = concat (map (loaded_packages env) (takeWhile (load_ok env) (collected_dirs env rootDir w)))"
    by blast
  moreover have "\<forall>tree. os_Lstat env w (if rootDir = [] then ''.'' else rootDir) = Some tree \<and> regular tree \<longrightarrow>
           collected_dirs env rootDir w
             = gomod_dirs (if rootDir = [] then ''.'' else rootDir) (prune tree)"
    using collected_dirs_regular by blast
  moreover have "\<forall>tree. os_Lstat env w (if rootDir = [] then ''.'' else rootDir) = Some tree \<and> tidy tree \<longrightarrow>
           collected_dirs env rootDir w = gomod_dirs (if rootDir = [] then ''.'' else rootDir) tree"
    using collected_dirs_tidy by blast
  ultimately show ?thesis by blast
qed

lemma modules_tree:
  "os_Lstat modules_env demo_world ''.'' = Some three_modules"
  "tidy three_modules"
  "gomod_dirs ''.'' three_modules = [''a'', ''b'', ''c'']"
  by (simp add: modules_env_def, code_simp, code_simp)

lemma internal_tree_pruned:
  "os_Lstat internal_env demo_world ''.'' = Some internal_tree"
  "regular internal_tree"
  "gomod_dirs ''.'' (prune internal_tree) = [''kms'']"
  by (simp add: internal_env_def demo_env_def, code_simp, code_simp)

theorem walk_before_processing_witness:
  "(\<exists>out w' walk rest. Generate modules_env [] [] Map.empty demo_world = (out, w')
      \<and> trace w' = walk @ rest \<and> walk \<noteq> [] \<and> list_all is_walk walk \<and> filter is_walk rest = []
      \<and> loads rest = [''a'', ''b'', ''c'']
      \<and> collected_dirs modules_env [] demo_world = [''a'', ''b'', ''c''])
   \<and> collected_dirs internal_env [] demo_world = [''kms'']"
proof -
  obtain out w' where run: "Generate modules_env [] [] Map.empty demo_world = (out, w')"
    by (cases "Generate modules_env [] [] Map.empty demo_world")
  from walk_before_processing [OF run] obtain walk rest where g:
    "trace w' = trace demo_world @ walk @ rest" "walk \<noteq> []" "list_all is_walk walk"
    "filter is_walk rest = []"
    "loads rest = takeWhile (load_ok modules_env) (collected_dirs modules_env [] demo_world)
                       @ take 1 (dropWhile (load_ok modules_env) (collected_dirs modules_env [] demo_world))"
    "\<forall>tree. os_Lstat modules_env demo_world (if ([]::string) = [] then ''.'' else []) = Some tree
             \<and> tidy tree \<longrightarrow>
           collected_dirs modules_env [] demo_world = gomod_dirs (if ([]::string) = [] then ''.'' else []) tree"
    by blast
  from g(6) modules_tree have dirs: "collected_dirs modules_env [] demo_world = [''a'', ''b'', ''c'']"
    by simp
  have "takeWhile (load_ok modules_env) [''a'', ''b'', ''c''] = [''a'', ''b'', ''c'']"
       "dropWhile (load_ok modules_env) [''a'', ''b'', ''c''] = []"
    using modules_loads(1) by simp_all
  with g(5) dirs have "loads rest = [''a'', ''b'', ''c'']"
    by simp
  moreover from g(1) have "trace w' = walk @ rest"
    by (simp add: demo_world_def)
  ultimately have first: "\<exists>out w' walk rest. Generate modules_env [] [] Map.empty demo_world = (out, w')
      \<and> trace w' = walk @ rest \<and> walk \<noteq> [] \<and> list_all is_walk walk \<and> filter is_walk rest = []
      \<and> loads rest = [''a'', ''b'', ''c'']
      \<and> collected_dirs modules_env [] demo_world = [''a'', ''b'', ''c'']"
    using run g(2-4) dirs by (intro exI [of _ out] exI [of _ w'] exI [of _ walk] exI [of _ rest]) simp
  obtain out2 w2 where run2: "Generate internal_env [] [] Map.empty demo_world = (out2, w2)"
    by (cases "Generate internal_env [] [] Map.empty demo_world")
  from walk_before_processing [OF run2] have
    "\<forall>tree. os_Lstat internal_env demo_world (if ([]::string) = [] then ''.'' else []) = Some tree
             \<and> regular tree \<longrightarrow>
           collected_dirs internal_env [] demo_world
             = gomod_dirs (if ([]::string) = [] then ''.'' else []) (prune tree)"
    by blast
  with internal_tree_pruned have "collected_dirs internal_env [] demo_world = [''kms'']"
    by simp
  with first show ?thesis by (rule conjI)
qed

text \<open>
  The claim as stated fails for a module below a directory named \<^verbatim>\<open>internal\<close>: the
  directory contains a \<^verbatim>\<open>go.mod\<close> file, but the walk skips it, so it is neither
  collected nor loaded.
\<close>

theorem internal_module_skipped_counterexample:
  "gomod_dirs ''.'' internal_tree = [''internal'', ''kms'']
   \<and> collected_dirs internal_env [] demo_world = [''kms'']
   \<and> loads (trace (snd (Generate internal_env [] [] Map.empty demo_world))) = [''kms'']"
  by code_simp

end
